theory Spec2Isabelle
  imports Complex_Main "HOL-Library.AList" "HOL-Library.Log_Nat"
begin

section \<open>Python values used by the depth-of-market viewer\<close>

text \<open>
  Prices and resting quantities are Python floats obtained by \<^verbatim>\<open>float(str)\<close> from the
  decimal strings of the exchange. In the order book they are modelled as exact rationals:
  rounding, infinities and NaN are not part of that model. The binned ladder, whose bins are
  found by comparing computed doubles, is read a second time in the rounding arithmetic of
  doubles further below. Exceptions are values of \<open>py_error\<close>; a call
  that raises returns \<open>Inl\<close> and the half-updated object is not observed any further
  (in the program the exception leaves \<^verbatim>\<open>BinanceClient.run\<close>).
\<close>

datatype py_error = ValueError | ZeroDivisionError | QueueFull | QueueEmpty

definition digit_of :: "char \<Rightarrow> nat option" where
  "digit_of c = map_of (zip ''0123456789'' [0, 1, 2, 3, 4, 5, 6, 7, 8, 9]) c"

fun digits_val :: "nat \<Rightarrow> string \<Rightarrow> nat option" where
  "digits_val acc [] = Some acc"
| "digits_val acc (c # cs) =
     (case digit_of c of None \<Rightarrow> None | Some d \<Rightarrow> digits_val (10 * acc + d) cs)"

text \<open>
  \<^verbatim>\<open>float(s)\<close> on the plain decimal numerals the feed sends: an optional sign, digits, an
  optional point, digits, with at least one digit. Any other string is a \<open>ValueError\<close> here
  (exponents, \<^verbatim>\<open>inf\<close>, \<^verbatim>\<open>nan\<close> and surrounding blanks, which Python also reads, are outside
  the model).
\<close>

definition py_float :: "string \<Rightarrow> rat option" where
  "py_float s =
     (let (neg, body) =
            (case s of
               [] \<Rightarrow> (False, [])
             | c # r \<Rightarrow> if c = CHR ''-'' then (True, r)
                        else if c = CHR ''+'' then (False, r) else (False, s));
          ip = takeWhile (\<lambda>c. c \<noteq> CHR ''.'') body;
          fp = drop 1 (dropWhile (\<lambda>c. c \<noteq> CHR ''.'') body)
      in if ip = [] \<and> fp = [] then None
         else case digits_val 0 (ip @ fp) of
                None \<Rightarrow> None
              | Some n \<Rightarrow> Some ((if neg then - 1 else 1) * (of_nat n / 10 ^ length fp)))"

text \<open>A \<^verbatim>\<open>dict\<close> is an association list in insertion order with one entry per key:
  \<open>AList.update\<close> is item assignment, \<open>AList.delete\<close> is \<^verbatim>\<open>pop(key, None)\<close>.\<close>

type_synonym ('k, 'v) dict = "('k \<times> 'v) list"

definition dict_get :: "('k, 'v) dict \<Rightarrow> 'k \<Rightarrow> 'v \<Rightarrow> 'v" where
  "dict_get d k dflt = (case map_of d k of None \<Rightarrow> dflt | Some v \<Rightarrow> v)"

section \<open>datafeed/orderbook.py\<close>

record OrderBook =
  symbol :: string
  bids :: "(rat, rat) dict"
  asks :: "(rat, rat) dict"
  last_update_id :: int
  bid_prices_sorted :: "rat list"
  ask_prices_sorted :: "rat list"
  dirty :: bool
  update_count :: int

text \<open>The REST snapshot \<^verbatim>\<open>{lastUpdateId, bids, asks}\<close> and the stream message
  \<^verbatim>\<open>{U, u, b, a}\<close>; \<^verbatim>\<open>U\<close>, \<^verbatim>\<open>b\<close> and \<^verbatim>\<open>a\<close> are read with \<^verbatim>\<open>.get\<close> and may be absent.\<close>

record depth_snapshot =
  lastUpdateId :: int
  snap_bids :: "(string \<times> string) list"
  snap_asks :: "(string \<times> string) list"

record depth_update =
  upd_U :: "int option"
  upd_u :: int
  upd_b :: "(string \<times> string) list option"
  upd_a :: "(string \<times> string) list option"

definition OrderBook_init :: "string \<Rightarrow> OrderBook" where
  "OrderBook_init name =
     \<lparr>symbol = name, bids = [], asks = [], last_update_id = 0,
      bid_prices_sorted = [], ask_prices_sorted = [], dirty = True, update_count = 0\<rparr>"

definition ensure_sorted :: "OrderBook \<Rightarrow> OrderBook" where
  "ensure_sorted s =
     (if \<not> dirty s then s
      else s\<lparr>bid_prices_sorted := rev (sort (map fst (bids s))),
             ask_prices_sorted := sort (map fst (asks s)),
             dirty := False\<rparr>)"

fun load_side :: "(string \<times> string) list \<Rightarrow> (rat, rat) dict \<Rightarrow> py_error + (rat, rat) dict" where
  "load_side [] d = Inr d"
| "load_side ((price_str, qty_str) # rest) d =
     (case py_float price_str of
        None \<Rightarrow> Inl ValueError
      | Some p \<Rightarrow>
          (case py_float qty_str of
             None \<Rightarrow> Inl ValueError
           | Some q \<Rightarrow> load_side rest (if q > 0 then AList.update p q d else d)))"

definition load_snapshot :: "OrderBook \<Rightarrow> depth_snapshot \<Rightarrow> py_error + OrderBook" where
  "load_snapshot s data =
     (case load_side (snap_bids data) [] of
        Inl e \<Rightarrow> Inl e
      | Inr bs \<Rightarrow>
          (case load_side (snap_asks data) [] of
             Inl e \<Rightarrow> Inl e
           | Inr as \<Rightarrow>
               Inr (ensure_sorted
                      (s\<lparr>last_update_id := lastUpdateId data, bids := bs, asks := as,
                         dirty := True\<rparr>))))"

fun update_side :: "(string \<times> string) list \<Rightarrow> (rat, rat) dict \<Rightarrow> py_error + (rat, rat) dict" where
  "update_side [] d = Inr d"
| "update_side ((price_str, qty_str) # rest) d =
     (case py_float price_str of
        None \<Rightarrow> Inl ValueError
      | Some p \<Rightarrow>
          (case py_float qty_str of
             None \<Rightarrow> Inl ValueError
           | Some q \<Rightarrow> update_side rest (if q = 0 then AList.delete p d else AList.update p q d)))"

definition first_id :: "depth_update \<Rightarrow> int" where
  "first_id upd = (case upd_U upd of Some x \<Rightarrow> x | None \<Rightarrow> upd_u upd)"

definition entries :: "(string \<times> string) list option \<Rightarrow> (string \<times> string) list" where
  "entries x = (case x of None \<Rightarrow> [] | Some es \<Rightarrow> es)"

definition apply_update :: "OrderBook \<Rightarrow> depth_update \<Rightarrow> py_error + (bool \<times> OrderBook)" where
  "apply_update s upd =
     (let last_id = upd_u upd in
      if first_id upd > last_update_id s + 1 then Inr (False, s)
      else if last_id \<le> last_update_id s then Inr (True, s)
      else
        (case update_side (entries (upd_b upd)) (bids s) of
           Inl e \<Rightarrow> Inl e
         | Inr bs \<Rightarrow>
             (case update_side (entries (upd_a upd)) (asks s) of
                Inl e \<Rightarrow> Inl e
              | Inr as \<Rightarrow>
                  Inr (True, s\<lparr>bids := bs, asks := as, last_update_id := last_id,
                               dirty := True, update_count := update_count s + 1\<rparr>))))"

text \<open>The three read-only properties. Each one calls \<^verbatim>\<open>_ensure_sorted\<close> first; the
  refreshed cache is not passed on because the next reader refreshes it again.\<close>

definition best_bid :: "OrderBook \<Rightarrow> rat" where
  "best_bid s = (case bid_prices_sorted (ensure_sorted s) of [] \<Rightarrow> 0 | p # _ \<Rightarrow> p)"

definition best_ask :: "OrderBook \<Rightarrow> rat" where
  "best_ask s = (case ask_prices_sorted (ensure_sorted s) of [] \<Rightarrow> 0 | p # _ \<Rightarrow> p)"

text \<open>\<^verbatim>\<open>bb or ba\<close> is \<^verbatim>\<open>bb\<close> unless \<^verbatim>\<open>bb\<close> is zero.\<close>

definition mid_price :: "OrderBook \<Rightarrow> rat" where
  "mid_price s =
     (let bb = best_bid s; ba = best_ask s in
      if bb > 0 \<and> ba > 0 then (bb + ba) / 2 else if bb \<noteq> 0 then bb else ba)"

text \<open>Float floor division \<^verbatim>\<open>x // y\<close> for a divisor that is not zero.\<close>

definition floordiv :: "rat \<Rightarrow> rat \<Rightarrow> rat" where
  "floordiv x y = of_int \<lfloor>x / y\<rfloor>"

datatype BinnedLevel = BinnedLevel (bin_price: rat) (bid_qty: rat) (ask_qty: rat)

definition add_bid :: "rat \<Rightarrow> rat \<times> rat \<Rightarrow> (rat, rat \<times> rat) dict \<Rightarrow> (rat, rat \<times> rat) dict" where
  "add_bid bin_size pq bins =
     (let bin_center = floordiv (fst pq) bin_size * bin_size + bin_size / 2 in
      case map_of bins bin_center of
        None \<Rightarrow> bins
      | Some (bq, aq) \<Rightarrow> AList.update bin_center (bq + snd pq, aq) bins)"

definition add_ask :: "rat \<Rightarrow> rat \<times> rat \<Rightarrow> (rat, rat \<times> rat) dict \<Rightarrow> (rat, rat \<times> rat) dict" where
  "add_ask bin_size pq bins =
     (let bin_center = floordiv (fst pq) bin_size * bin_size + bin_size / 2 in
      case map_of bins bin_center of
        None \<Rightarrow> bins
      | Some (bq, aq) \<Rightarrow> AList.update bin_center (bq, aq + snd pq) bins)"

definition alloc_bins :: "rat \<Rightarrow> rat \<Rightarrow> int \<Rightarrow> (rat, rat \<times> rat) dict" where
  "alloc_bins center_bin bin_size levels =
     fold (\<lambda>i bins. AList.update (center_bin + of_int i * bin_size) (0, 0) bins)
       [- levels..levels] []"

text \<open>\<^verbatim>\<open>sorted(bins.items(), reverse=True)\<close>: the keys of a dict are distinct, so the order of
  the items is the descending order of the keys.\<close>

definition get_binned_ladder :: "OrderBook \<Rightarrow> rat \<Rightarrow> int \<Rightarrow> py_error + BinnedLevel list" where
  "get_binned_ladder s bin_size levels =
     (let mid = mid_price s in
      if mid = 0 then Inr []
      else if bin_size = 0 then Inl ZeroDivisionError
      else
        (let center_bin = floordiv mid bin_size * bin_size + bin_size / 2;
             bins0 = alloc_bins center_bin bin_size levels;
             bins1 = fold (add_bid bin_size) (bids s) bins0;
             bins2 = fold (add_ask bin_size) (asks s) bins1
         in Inr (map (\<lambda>(c, bq, aq). BinnedLevel c bq aq) (rev (sort_key fst bins2)))))"

text \<open>The bin centre of a price as the specification words it,
  \<^verbatim>\<open>floor(price / binSize) * binSize + binSize / 2\<close>; the code's own expressions are the
  ones inside \<open>add_bid\<close>, \<open>add_ask\<close>, \<open>get_binned_ladder\<close> and \<open>price_to_bin\<close>.\<close>

definition bin_center_of :: "rat \<Rightarrow> rat \<Rightarrow> rat" where
  "bin_center_of binSize p = of_int \<lfloor>p / binSize\<rfloor> * binSize + binSize / 2"

text \<open>The resting quantity of one side that falls into the bin with centre \<open>c\<close>: the sum over
  every price of the side whose bin centre is \<open>c\<close>.\<close>

definition bin_total :: "rat \<Rightarrow> (rat, rat) dict \<Rightarrow> rat \<Rightarrow> rat" where
  "bin_total binSize side c =
     sum_list (map snd (filter (\<lambda>pq. bin_center_of binSize (fst pq) = c) side))"

section \<open>engine/flows.py\<close>

text \<open>
  The running totals of the flow engine are kept generic in the type \<open>'q\<close> of traded
  quantities, so that the same definitions can be read with exact arithmetic and with the
  rounding arithmetic of Python floats (\<open>binary64\<close> below). Bin centres stay rationals.
  \<^verbatim>\<open>time.perf_counter()\<close> is the argument \<open>now\<close> of \<open>process_trade\<close>.
\<close>

datatype 'q Trade = Trade (price: rat) (qty: 'q) (is_buyer_maker: bool) (timestamp_ms: int)

datatype 'q FlowLevel =
  FlowLevel (level_price: rat) (bid_resting_qty: rat) (ask_resting_qty: rat)
    (bid_traded_qty: 'q) (ask_traded_qty: 'q) (delta_qty: 'q)

record 'q FlowEngine =
  window_sec :: rat
  bin_size :: rat
  trades :: "(int \<times> rat \<times> 'q \<times> bool) list"
  bid_volume :: "(rat, 'q) dict"
  ask_volume :: "(rat, 'q) dict"
  last_cleanup_time :: rat
  cleanup_interval :: rat

definition FlowEngine_init :: "rat \<Rightarrow> rat \<Rightarrow> 'q FlowEngine" where
  "FlowEngine_init bsz wsec =
     \<lparr>window_sec = wsec, bin_size = bsz, trades = [], bid_volume = [], ask_volume = [],
      last_cleanup_time = 0, cleanup_interval = 1\<rparr>"

definition price_to_bin :: "'q FlowEngine \<Rightarrow> rat \<Rightarrow> rat" where
  "price_to_bin e p = floordiv p (bin_size e) * bin_size e + bin_size e / 2"

text \<open>\<^verbatim>\<open>int(x)\<close> of a float truncates towards zero.\<close>

definition py_int :: "rat \<Rightarrow> int" where
  "py_int x = (if 0 \<le> x then \<lfloor>x\<rfloor> else \<lceil>x\<rceil>)"

text \<open>One eviction: subtract, clamp at zero, and drop the key when the total is zero.\<close>

definition subtract_volume ::
  "(rat, 'q::{zero,minus,ord}) dict \<Rightarrow> rat \<Rightarrow> 'q \<Rightarrow> (rat, 'q) dict" where
  "subtract_volume vol bin_p q =
     (let vol' = AList.update bin_p (max 0 (dict_get vol bin_p 0 - q)) vol in
      if dict_get vol' bin_p 0 = 0 then AList.delete bin_p vol' else vol')"

fun evict_expired ::
  "int \<Rightarrow> (int \<times> rat \<times> 'q \<times> bool) list \<Rightarrow> (rat, 'q::{zero,minus,ord}) dict \<Rightarrow> (rat, 'q) dict
     \<Rightarrow> (int \<times> rat \<times> 'q \<times> bool) list \<times> (rat, 'q) dict \<times> (rat, 'q) dict" where
  "evict_expired cutoff_ms [] bv av = ([], bv, av)"
| "evict_expired cutoff_ms ((ts_ms, bin_p, q, is_bid) # rest) bv av =
     (if ts_ms < cutoff_ms then
        (if is_bid then evict_expired cutoff_ms rest (subtract_volume bv bin_p q) av
         else evict_expired cutoff_ms rest bv (subtract_volume av bin_p q))
      else ((ts_ms, bin_p, q, is_bid) # rest, bv, av))"

definition cleanup_expired :: "'q::{zero,minus,ord} FlowEngine \<Rightarrow> int \<Rightarrow> 'q FlowEngine" where
  "cleanup_expired e now_ms =
     (let cutoff_ms = now_ms - py_int (window_sec e * 1000) in
      case evict_expired cutoff_ms (trades e) (bid_volume e) (ask_volume e) of
        (ts, bv, av) \<Rightarrow> e\<lparr>trades := ts, bid_volume := bv, ask_volume := av\<rparr>)"

definition process_trade ::
  "'q::{zero,plus,minus,ord} FlowEngine \<Rightarrow> 'q Trade \<Rightarrow> rat \<Rightarrow> py_error + 'q FlowEngine" where
  "process_trade e trade now =
     (if bin_size e = 0 then Inl ZeroDivisionError
      else
        (let bin_p = price_to_bin e (price trade);
             is_bid = (\<not> is_buyer_maker trade);
             e1 = (if is_bid
                   then e\<lparr>bid_volume :=
                            AList.update bin_p (dict_get (bid_volume e) bin_p 0 + qty trade)
                              (bid_volume e)\<rparr>
                   else e\<lparr>ask_volume :=
                            AList.update bin_p (dict_get (ask_volume e) bin_p 0 + qty trade)
                              (ask_volume e)\<rparr>);
             e2 = e1\<lparr>trades := trades e1 @ [(timestamp_ms trade, bin_p, qty trade, is_bid)]\<rparr>
         in if now - last_cleanup_time e2 > cleanup_interval e2
            then Inr ((cleanup_expired e2 (timestamp_ms trade))\<lparr>last_cleanup_time := now\<rparr>)
            else Inr e2))"

definition get_flow_at_bin :: "'q::{zero,minus} FlowEngine \<Rightarrow> rat \<Rightarrow> 'q \<times> 'q \<times> 'q" where
  "get_flow_at_bin e bin_p =
     (let bid = dict_get (bid_volume e) bin_p 0; ask = dict_get (ask_volume e) bin_p 0
      in (bid, ask, bid - ask))"

definition merge_with_book :: "'q::{zero,minus} FlowEngine \<Rightarrow> BinnedLevel list \<Rightarrow> 'q FlowLevel list" where
  "merge_with_book e binned_levels =
     map (\<lambda>level.
            let bid_traded = dict_get (bid_volume e) (bin_price level) 0;
                ask_traded = dict_get (ask_volume e) (bin_price level) 0;
                delta = bid_traded - ask_traded
            in FlowLevel (bin_price level) (bid_qty level) (ask_qty level)
                 bid_traded ask_traded delta)
       binned_levels"

definition clear :: "'q FlowEngine \<Rightarrow> 'q FlowEngine" where
  "clear e = e\<lparr>trades := [], bid_volume := [], ask_volume := []\<rparr>"

text \<open>What the rolling totals are meant to be: the sum of the quantities of the history
  entries of one side and bin, and the invariant tying the two volume maps to the history
  (a key is present only for a bin that still has an entry).\<close>

definition side_total ::
  "(int \<times> rat \<times> 'q::comm_monoid_add \<times> bool) list \<Rightarrow> bool \<Rightarrow> rat \<Rightarrow> 'q" where
  "side_total hist side bin_p =
     sum_list (map (\<lambda>x. fst (snd (snd x)))
                 (filter (\<lambda>x. snd (snd (snd x)) = side \<and> fst (snd x) = bin_p) hist))"

definition totals_ok ::
  "(int \<times> rat \<times> 'q::linordered_ab_group_add \<times> bool) list \<Rightarrow> (rat, 'q) dict \<Rightarrow> (rat, 'q) dict
     \<Rightarrow> bool" where
  "totals_ok hist bv av \<longleftrightarrow>
     (\<forall>x\<in>set hist. 0 \<le> fst (snd (snd x)))
     \<and> (\<forall>bin_p. dict_get bv bin_p 0 = side_total hist True bin_p)
     \<and> (\<forall>bin_p. dict_get av bin_p 0 = side_total hist False bin_p)
     \<and> fst ` set bv \<subseteq> (\<lambda>x. fst (snd x)) ` {x \<in> set hist. snd (snd (snd x))}
     \<and> fst ` set av \<subseteq> (\<lambda>x. fst (snd x)) ` {x \<in> set hist. \<not> snd (snd (snd x))}"

section \<open>Python floats as rounded dyadic numbers\<close>

text \<open>
  \<open>B64 m e\<close> is the finite double \<open>m * 2 ^ e\<close> in the layout of IEEE 754 binary64: a normal
  number has \<open>2 ^ 52 \<le> \<bar>m\<bar> < 2 ^ 53\<close>, a subnormal one has \<open>e = - 1074\<close>, and zero is
  \<open>B64 0 (- 1074)\<close>. \<open>round64 n d\<close> is the double nearest to the fraction \<open>n / d\<close> (for
  \<open>d > 0\<close>), ties to the even mantissa, which is what \<^verbatim>\<open>float("0.1")\<close>, \<^verbatim>\<open>+\<close> and \<^verbatim>\<open>-\<close> compute.
  Overflow to infinity, NaN and the sign of zero are left out.
\<close>

datatype binary64 = B64 int int

definition round64 :: "int \<Rightarrow> int \<Rightarrow> binary64" where
  "round64 n d =
     (if n = 0 then B64 0 (- 1074)
      else
        let a = \<bar>n\<bar>;
            e0 = bitlen a - bitlen d;
            e = (if (if 0 \<le> e0 then d * 2 ^ nat e0 \<le> a else d \<le> a * 2 ^ nat (- e0))
                 then e0 else e0 - 1);
            u = max e (- 1022) - 52;
            num = (if 0 \<le> u then a else a * 2 ^ nat (- u));
            den = (if 0 \<le> u then d * 2 ^ nat u else d);
            q = num div den;
            r = num mod den;
            m = (if 2 * r < den then q else if den < 2 * r then q + 1
                 else if even q then q else q + 1)
        in if m = 2 ^ 53 then B64 (sgn n * 2 ^ 52) (u + 1) else B64 (sgn n * m) u)"

definition scaled :: "int \<Rightarrow> int \<Rightarrow> int \<Rightarrow> int" where
  "scaled m e u = m * 2 ^ nat (e - u)"

instantiation binary64 :: "{zero,plus,minus,ord}"
begin

definition zero_binary64 :: binary64 where
  "zero_binary64 = B64 0 (- 1074)"

fun plus_binary64 :: "binary64 \<Rightarrow> binary64 \<Rightarrow> binary64" where
  "plus_binary64 (B64 m1 e1) (B64 m2 e2) =
     (let u = min e1 e2; n = scaled m1 e1 u + scaled m2 e2 u
      in if 0 \<le> u then round64 (n * 2 ^ nat u) 1 else round64 n (2 ^ nat (- u)))"

fun minus_binary64 :: "binary64 \<Rightarrow> binary64 \<Rightarrow> binary64" where
  "minus_binary64 (B64 m1 e1) (B64 m2 e2) =
     (let u = min e1 e2; n = scaled m1 e1 u - scaled m2 e2 u
      in if 0 \<le> u then round64 (n * 2 ^ nat u) 1 else round64 n (2 ^ nat (- u)))"

fun less_eq_binary64 :: "binary64 \<Rightarrow> binary64 \<Rightarrow> bool" where
  "less_eq_binary64 (B64 m1 e1) (B64 m2 e2) =
     (let u = min e1 e2 in scaled m1 e1 u \<le> scaled m2 e2 u)"

fun less_binary64 :: "binary64 \<Rightarrow> binary64 \<Rightarrow> bool" where
  "less_binary64 (B64 m1 e1) (B64 m2 e2) =
     (let u = min e1 e2 in scaled m1 e1 u < scaled m2 e2 u)"

instance ..

end

section \<open>datafeed/orderbook.py in double arithmetic\<close>

text \<open>
  \<^verbatim>\<open>get_binned_ladder\<close> builds the keys of its bins with one expression,
  \<^verbatim>\<open>center_bin + i * bin_size\<close>, computes the bin of a price with another,
  \<^verbatim>\<open>(price // bin_size) * bin_size + bin_size / 2\<close>, and looks the second up among the first
  with \<^verbatim>\<open>in\<close>, that is with \<^verbatim>\<open>==\<close> on doubles. Whether a price finds its bin depends on the
  rounding of every operation, so the function and the properties it reads are given a second
  time here with \<open>binary64\<close> in place of the rationals. The book is given by its two dicts;
  the sorted key lists are the ones \<^verbatim>\<open>_ensure_sorted\<close> rebuilds from them.

  \<open>val64 x\<close> is the exact value of the double \<open>x\<close>. Two doubles are \<^verbatim>\<open>==\<close> when their values
  are equal and \<^verbatim>\<open><\<close> compares values, so the bins are keyed by value. \<open>x * y\<close> is the double
  nearest to the product, \<open>div64 x y\<close> the double nearest to the quotient for \<open>y\<close> other than
  zero, \<open>float_of_int i\<close> the conversion that \<^verbatim>\<open>i * bin_size\<close> and \<^verbatim>\<open>bin_size / 2\<close> apply to the
  integer, and \<open>halved x\<close> is \<^verbatim>\<open>x / 2\<close>.
\<close>

instantiation binary64 :: times
begin

fun times_binary64 :: "binary64 \<Rightarrow> binary64 \<Rightarrow> binary64" where
  "times_binary64 (B64 m1 e1) (B64 m2 e2) =
     (let e = e1 + e2
      in if 0 \<le> e then round64 (m1 * m2 * 2 ^ nat e) 1 else round64 (m1 * m2) (2 ^ nat (- e)))"

instance ..

end

fun val64 :: "binary64 \<Rightarrow> rat" where
  "val64 (B64 m e) = (if 0 \<le> e then of_int (m * 2 ^ nat e) else of_int m / of_int (2 ^ nat (- e)))"

definition float_of_int :: "int \<Rightarrow> binary64" where
  "float_of_int i = round64 i 1"

fun div64 :: "binary64 \<Rightarrow> binary64 \<Rightarrow> binary64" where
  "div64 (B64 m1 e1) (B64 m2 e2) =
     (let n = m1 * sgn m2; d = \<bar>m2\<bar>; e = e1 - e2
      in if 0 \<le> e then round64 (n * 2 ^ nat e) d else round64 n (d * 2 ^ nat (- e)))"

definition halved :: "binary64 \<Rightarrow> binary64" where
  "halved x = div64 x (float_of_int 2)"

text \<open>
  \<^verbatim>\<open>x // y\<close> on floats is \<^verbatim>\<open>float_floor_div\<close> of CPython: with \<^verbatim>\<open>mod = fmod(x, y)\<close>, which is
  exact and has the sign of \<open>x\<close>, it takes \<^verbatim>\<open>div = (x - mod) / y\<close>, lowers \<^verbatim>\<open>div\<close> by one when
  \<^verbatim>\<open>mod\<close> is not zero and differs from \<open>y\<close> in sign, and snaps the result to the nearest
  integer: \<^verbatim>\<open>floor(div)\<close>, plus one when \<^verbatim>\<open>div - floor(div) > 0.5\<close>. The divisor is not zero
  here; for a zero divisor Python raises, which is a branch of the caller.
\<close>

fun mant :: "binary64 \<Rightarrow> int" where
  "mant (B64 m e) = m"

fun fmod64 :: "binary64 \<Rightarrow> binary64 \<Rightarrow> binary64" where
  "fmod64 (B64 m1 e1) (B64 m2 e2) =
     (let u = min e1 e2; a = scaled m1 e1 u; b = scaled m2 e2 u;
          r = sgn a * (\<bar>a\<bar> mod \<bar>b\<bar>)
      in if 0 \<le> u then round64 (r * 2 ^ nat u) 1 else round64 r (2 ^ nat (- u)))"

fun floor64 :: "binary64 \<Rightarrow> binary64" where
  "floor64 (B64 m e) = (if 0 \<le> e then B64 m e else round64 (m div 2 ^ nat (- e)) 1)"

definition floordiv64 :: "binary64 \<Rightarrow> binary64 \<Rightarrow> binary64" where
  "floordiv64 vx wx =
     (let md = fmod64 vx wx;
          div0 = div64 (vx - md) wx;
          dv = (if mant md \<noteq> 0 \<and> (mant wx < 0) \<noteq> (mant md < 0)
                then div0 - float_of_int 1 else div0)
      in if mant dv \<noteq> 0
         then (let fd = floor64 dv
               in if round64 1 2 < dv - fd then fd + float_of_int 1 else fd)
         else 0)"

datatype BinnedLevel64 =
  BinnedLevel64 (bin_price64: rat) (bid_qty64: binary64) (ask_qty64: binary64)

definition best_bid64 :: "(binary64, binary64) dict \<Rightarrow> binary64" where
  "best_bid64 bids64 = (case rev (sort_key val64 (map fst bids64)) of [] \<Rightarrow> 0 | p # _ \<Rightarrow> p)"

definition best_ask64 :: "(binary64, binary64) dict \<Rightarrow> binary64" where
  "best_ask64 asks64 = (case sort_key val64 (map fst asks64) of [] \<Rightarrow> 0 | p # _ \<Rightarrow> p)"

definition mid_price64 ::
  "(binary64, binary64) dict \<Rightarrow> (binary64, binary64) dict \<Rightarrow> binary64" where
  "mid_price64 bids64 asks64 =
     (let bb = best_bid64 bids64; ba = best_ask64 asks64 in
      if 0 < val64 bb \<and> 0 < val64 ba then halved (bb + ba)
      else if val64 bb \<noteq> 0 then bb else ba)"

definition alloc_bins64 ::
  "binary64 \<Rightarrow> binary64 \<Rightarrow> int \<Rightarrow> (rat, binary64 \<times> binary64) dict" where
  "alloc_bins64 center_bin bin_sz levels =
     fold (\<lambda>i bins. AList.update (val64 (center_bin + float_of_int i * bin_sz)) (0, 0) bins)
       [- levels..levels] []"

definition add_bid64 ::
  "binary64 \<Rightarrow> binary64 \<times> binary64 \<Rightarrow> (rat, binary64 \<times> binary64) dict
     \<Rightarrow> (rat, binary64 \<times> binary64) dict" where
  "add_bid64 bin_sz pq bins =
     (let bin_center = val64 (floordiv64 (fst pq) bin_sz * bin_sz + halved bin_sz) in
      case map_of bins bin_center of
        None \<Rightarrow> bins
      | Some (bq, aq) \<Rightarrow> AList.update bin_center (bq + snd pq, aq) bins)"

definition add_ask64 ::
  "binary64 \<Rightarrow> binary64 \<times> binary64 \<Rightarrow> (rat, binary64 \<times> binary64) dict
     \<Rightarrow> (rat, binary64 \<times> binary64) dict" where
  "add_ask64 bin_sz pq bins =
     (let bin_center = val64 (floordiv64 (fst pq) bin_sz * bin_sz + halved bin_sz) in
      case map_of bins bin_center of
        None \<Rightarrow> bins
      | Some (bq, aq) \<Rightarrow> AList.update bin_center (bq, aq + snd pq) bins)"

definition get_binned_ladder64 ::
  "(binary64, binary64) dict \<Rightarrow> (binary64, binary64) dict \<Rightarrow> binary64 \<Rightarrow> int
     \<Rightarrow> py_error + BinnedLevel64 list" where
  "get_binned_ladder64 bids64 asks64 bin_sz levels =
     (let mid = mid_price64 bids64 asks64 in
      if val64 mid = 0 then Inr []
      else if val64 bin_sz = 0 then Inl ZeroDivisionError
      else
        (let center_bin = floordiv64 mid bin_sz * bin_sz + halved bin_sz;
             bins0 = alloc_bins64 center_bin bin_sz levels;
             bins1 = fold (add_bid64 bin_sz) bids64 bins0;
             bins2 = fold (add_ask64 bin_sz) asks64 bins1
         in Inr (map (\<lambda>(c, bq, aq). BinnedLevel64 c bq aq) (rev (sort_key fst bins2)))))"

text \<open>The bin centre of a price as the code computes it, the centres a call allocates in
  the order of the loop, and the running sum that \<^verbatim>\<open>bins[c][side] += qty\<close> builds from
  \<^verbatim>\<open>0.0\<close> over the entries of one side whose centre is \<^verbatim>\<open>==\<close> the key \<open>c\<close>.\<close>

definition bin_center64 :: "binary64 \<Rightarrow> binary64 \<Rightarrow> binary64" where
  "bin_center64 bin_sz p = floordiv64 p bin_sz * bin_sz + halved bin_sz"

definition allocated64 ::
  "(binary64, binary64) dict \<Rightarrow> (binary64, binary64) dict \<Rightarrow> binary64 \<Rightarrow> int \<Rightarrow> rat list" where
  "allocated64 bids64 asks64 bin_sz levels =
     map (\<lambda>i. val64 (bin_center64 bin_sz (mid_price64 bids64 asks64) + float_of_int i * bin_sz))
       [- levels..levels]"

definition bin_sum64 :: "binary64 \<Rightarrow> (binary64, binary64) dict \<Rightarrow> rat \<Rightarrow> binary64" where
  "bin_sum64 bin_sz side c =
     foldl (+) 0 (map snd (filter (\<lambda>pq. val64 (bin_center64 bin_sz (fst pq)) = c) side))"



section \<open>datafeed/binance\_client.py\<close>

datatype 'q DOMSnapshot =
  DOMSnapshot (snap_symbol: string) (snap_best_bid: rat) (snap_best_ask: rat)
    (snap_mid_price: rat) (snap_spread_bps: rat) (snap_levels: "'q FlowLevel list")
    (snap_timestamp_ms: int) (snap_updates_per_sec: rat)

record 'q BinanceClient =
  client_symbol :: string
  client_bin_size :: rat
  client_levels :: int
  snapshot_interval_ms :: int
  orderbook :: OrderBook
  flows :: "'q FlowEngine"
  last_snapshot_time :: rat
  client_update_count :: int
  update_count_last :: int
  rate_calc_time :: rat
  updates_per_sec :: rat
  snapshot_queue :: "'q DOMSnapshot list"

text \<open>The constructor; \<open>t0\<close> is the \<^verbatim>\<open>perf_counter()\<close> reading it takes. The symbol is
  stored as given (the upper-casing of \<^verbatim>\<open>__init__\<close> is not modelled).\<close>

definition BinanceClient_init ::
  "string \<Rightarrow> rat \<Rightarrow> int \<Rightarrow> rat \<Rightarrow> int \<Rightarrow> rat \<Rightarrow> 'q BinanceClient" where
  "BinanceClient_init name bsz lv flow_window_sec interval_ms t0 =
     \<lparr>client_symbol = name, client_bin_size = bsz, client_levels = lv,
      snapshot_interval_ms = interval_ms, orderbook = OrderBook_init name,
      flows = FlowEngine_init bsz flow_window_sec, last_snapshot_time = 0,
      client_update_count = 0, update_count_last = 0, rate_calc_time = t0,
      updates_per_sec = 0, snapshot_queue = []\<rparr>"

text \<open>\<^verbatim>\<open>queue.Queue(maxsize=5)\<close>, oldest element first, with its two calls that never wait.\<close>

definition queue_maxsize :: nat where
  "queue_maxsize = 5"

definition put_nowait :: "'a list \<Rightarrow> 'a \<Rightarrow> py_error + 'a list" where
  "put_nowait q x = (if queue_maxsize \<le> length q then Inl QueueFull else Inr (q @ [x]))"

definition get_nowait :: "'a list \<Rightarrow> py_error + ('a \<times> 'a list)" where
  "get_nowait q = (case q of [] \<Rightarrow> Inl QueueEmpty | x # rest \<Rightarrow> Inr (x, rest))"

text \<open>The \<^verbatim>\<open>try/except queue.Full\<close> block that ends \<^verbatim>\<open>_maybe_push_snapshot\<close>; the inner bare
  \<^verbatim>\<open>except: pass\<close> keeps whatever the queue holds at the point of the failure.\<close>

definition push_drop_oldest :: "'a list \<Rightarrow> 'a \<Rightarrow> 'a list" where
  "push_drop_oldest q snapshot =
     (case put_nowait q snapshot of
        Inr q' \<Rightarrow> q'
      | Inl _ \<Rightarrow>
          (case get_nowait q of
             Inl _ \<Rightarrow> q
           | Inr (_, q1) \<Rightarrow>
               (case put_nowait q1 snapshot of Inl _ \<Rightarrow> q1 | Inr q2 \<Rightarrow> q2)))"

text \<open>The artifact built from the two components; \<open>wall_ms\<close> is \<^verbatim>\<open>int(time.time() * 1000)\<close>.\<close>

definition build_snapshot ::
  "'q::{zero,minus} BinanceClient \<Rightarrow> int \<Rightarrow> py_error + 'q DOMSnapshot" where
  "build_snapshot c wall_ms =
     (case get_binned_ladder (orderbook c) (client_bin_size c) (client_levels c) of
        Inl e \<Rightarrow> Inl e
      | Inr binned \<Rightarrow>
          (let flow_levels = merge_with_book (flows c) binned;
               bb = best_bid (orderbook c);
               ba = best_ask (orderbook c);
               mid = mid_price (orderbook c);
               spread_bps = (if mid > 0 then (ba - bb) / mid * 10000 else 0)
           in Inr (DOMSnapshot (client_symbol c) bb ba mid spread_bps flow_levels wall_ms
                     (updates_per_sec c))))"

text \<open>\<open>now\<close> is \<^verbatim>\<open>time.perf_counter()\<close>.\<close>

definition maybe_push_snapshot ::
  "'q::{zero,minus} BinanceClient \<Rightarrow> rat \<Rightarrow> int \<Rightarrow> py_error + 'q BinanceClient" where
  "maybe_push_snapshot c now wall_ms =
     (let elapsed_ms = (now - last_snapshot_time c) * 1000 in
      if elapsed_ms < of_int (snapshot_interval_ms c) then Inr c
      else
        (let c1 = c\<lparr>last_snapshot_time := now\<rparr>;
             rate_elapsed = now - rate_calc_time c1;
             c2 = (if rate_elapsed \<ge> 1
                   then c1\<lparr>updates_per_sec :=
                              of_int (client_update_count c1 - update_count_last c1) / rate_elapsed,
                           update_count_last := client_update_count c1,
                           rate_calc_time := now\<rparr>
                   else c1)
         in case build_snapshot c2 wall_ms of
              Inl e \<Rightarrow> Inl e
            | Inr snapshot \<Rightarrow>
                Inr (c2\<lparr>snapshot_queue := push_drop_oldest (snapshot_queue c2) snapshot\<rparr>)))"

section \<open>States of the book\<close>

text \<open>The books a client can hold: the constructor's, and those left by a call that returned.\<close>

inductive reachable :: "OrderBook \<Rightarrow> bool" where
  init: "reachable (OrderBook_init name)"
| snapshot: "reachable s \<Longrightarrow> load_snapshot s data = Inr s' \<Longrightarrow> reachable s'"
| update: "reachable s \<Longrightarrow> apply_update s upd = Inr (r, s') \<Longrightarrow> reachable s'"
| query: "reachable s \<Longrightarrow> reachable (ensure_sorted s)"

text \<open>The cached key lists agree with the maps whenever the dirty flag is down.\<close>

definition cache_ok :: "OrderBook \<Rightarrow> bool" where
  "cache_ok s \<longleftrightarrow>
     dirty s \<or>
     (bid_prices_sorted s = rev (sort (map fst (bids s))) \<and>
      ask_prices_sorted s = sort (map fst (asks s)))"

section \<open>The sorted cache and the best prices\<close>

lemma ensure_sorted_fields [simp]:
  "bids (ensure_sorted s) = bids s" "asks (ensure_sorted s) = asks s"
  "last_update_id (ensure_sorted s) = last_update_id s"
  "dirty (ensure_sorted s) = False"
  by (simp_all add: ensure_sorted_def)

lemma cache_ok_ensure_sorted: "cache_ok s \<Longrightarrow> cache_ok (ensure_sorted s)"
  by (auto simp: cache_ok_def ensure_sorted_def)

lemma ensure_sorted_cache:
  assumes "cache_ok s"
  shows "bid_prices_sorted (ensure_sorted s) = rev (sort (map fst (bids s)))"
    and "ask_prices_sorted (ensure_sorted s) = sort (map fst (asks s))"
  using assms by (auto simp: cache_ok_def ensure_sorted_def)

lemma cache_ok_load_snapshot: "load_snapshot s data = Inr s' \<Longrightarrow> cache_ok s'"
  by (auto simp: load_snapshot_def cache_ok_def ensure_sorted_def split: sum.splits)

lemma cache_ok_apply_update:
  "cache_ok s \<Longrightarrow> apply_update s upd = Inr (r, s') \<Longrightarrow> cache_ok s'"
  by (auto simp: apply_update_def Let_def cache_ok_def split: if_splits sum.splits)

lemma reachable_cache_ok: "reachable s \<Longrightarrow> cache_ok s"
proof (induction rule: reachable.induct)
  case (init name)
  show ?case by (simp add: cache_ok_def OrderBook_init_def)
next
  case (snapshot s data s')
  then show ?case by (simp add: cache_ok_load_snapshot)
next
  case (update s upd r s')
  then show ?case by (blast intro: cache_ok_apply_update)
next
  case (query s)
  then show ?case by (simp add: cache_ok_ensure_sorted)
qed

lemma hd_rev_sort_Max:
  fixes xs :: "rat list"
  assumes "xs \<noteq> []"
  shows "(case rev (sort xs) of [] \<Rightarrow> 0 | p # _ \<Rightarrow> p) = Max (set xs)"
proof -
  from assms have "rev (sort xs) \<noteq> []" by (metis length_sort length_0_conv rev_is_Nil_conv)
  then obtain p ps where ps: "rev (sort xs) = p # ps" by (cases "rev (sort xs)") auto
  have "sorted_wrt (\<ge>) (rev (sort xs))" by (simp add: sorted_wrt_rev)
  with ps have ge: "\<forall>y\<in>set (p # ps). y \<le> p" by auto
  have mem: "set (p # ps) = set xs" using ps by (metis set_rev set_sort)
  have "p = Max (set xs)"
  proof (rule Max_eqI [symmetric])
    show "finite (set xs)" by simp
    show "p \<in> set xs" using mem by auto
    fix y assume "y \<in> set xs"
    with mem ge show "y \<le> p" by blast
  qed
  with ps show ?thesis by simp
qed

lemma hd_sort_Min:
  fixes xs :: "rat list"
  assumes "xs \<noteq> []"
  shows "(case sort xs of [] \<Rightarrow> 0 | p # _ \<Rightarrow> p) = Min (set xs)"
proof -
  from assms have ne: "sort xs \<noteq> []" by (metis length_sort length_0_conv)
  then obtain p ps where ps: "sort xs = p # ps" by (cases "sort xs") auto
  have "sorted (p # ps)" using sorted_sort [of xs] ps by simp
  then have le: "\<forall>y\<in>set (p # ps). p \<le> y" by auto
  have "p = Min (set xs)"
  proof (rule Min_eqI [symmetric])
    show "finite (set xs)" by simp
    show "p \<in> set xs" using ps by (metis list.set_intros(1) set_sort)
    fix y assume "y \<in> set xs"
    then have "y \<in> set (p # ps)" using ps by (metis set_sort)
    with le show "p \<le> y" by blast
  qed
  with ps show ?thesis by simp
qed

lemma best_bid_empty: "cache_ok s \<Longrightarrow> bids s = [] \<Longrightarrow> best_bid s = 0"
  by (simp add: best_bid_def ensure_sorted_cache)

lemma best_ask_empty: "cache_ok s \<Longrightarrow> asks s = [] \<Longrightarrow> best_ask s = 0"
  by (simp add: best_ask_def ensure_sorted_cache)

lemma best_bid_Max: "cache_ok s \<Longrightarrow> bids s \<noteq> [] \<Longrightarrow> best_bid s = Max (fst ` set (bids s))"
  using hd_rev_sort_Max [of "map fst (bids s)"] by (simp add: best_bid_def ensure_sorted_cache)

lemma best_ask_Min: "cache_ok s \<Longrightarrow> asks s \<noteq> [] \<Longrightarrow> best_ask s = Min (fst ` set (asks s))"
  using hd_sort_Min [of "map fst (asks s)"] by (simp add: best_ask_def ensure_sorted_cache)

section \<open>Sequencing of depth updates\<close>

text \<open>
  C1. An update whose first id lies beyond \<open>last_update_id + 1\<close> is refused: the call returns
  \<open>False\<close> and the whole book, in particular both price maps and \<open>last_update_id\<close>, is the one
  it was before. The price strings are not even parsed.
\<close>

theorem apply_update_gap:
  assumes "first_id upd > last_update_id s + 1"
  shows "apply_update s upd = Inr (False, s)"
  using assms by (simp add: apply_update_def)

theorem apply_update_gap_witness:
  "last_update_id (OrderBook_init ''BNBUSDT''\<lparr>last_update_id := 100\<rparr>) + 1
     < first_id \<lparr>upd_U = Some 105, upd_u = 106, upd_b = Some [(''99.00'', ''1'')], upd_a = None\<rparr>
   \<and> apply_update (OrderBook_init ''BNBUSDT''\<lparr>last_update_id := 100\<rparr>)
        \<lparr>upd_U = Some 105, upd_u = 106, upd_b = Some [(''99.00'', ''1'')], upd_a = None\<rparr>
      = Inr (False, OrderBook_init ''BNBUSDT''\<lparr>last_update_id := 100\<rparr>)"
proof -
  have gap: "last_update_id (OrderBook_init ''BNBUSDT''\<lparr>last_update_id := 100\<rparr>) + 1
     < first_id \<lparr>upd_U = Some 105, upd_u = 106, upd_b = Some [(''99.00'', ''1'')], upd_a = None\<rparr>"
    by (simp add: first_id_def)
  from gap apply_update_gap [OF gap] show ?thesis by simp
qed

text \<open>
  C2. An update that is not ahead of the book (\<open>lastId \<le> last_update_id\<close>, no gap) returns
  \<open>True\<close> and leaves the book as it was; and whatever a first application of an update
  returned, applying the same update again to the resulting book changes nothing.
\<close>

theorem apply_update_stale:
  "(first_id upd \<le> last_update_id s + 1 \<and> upd_u upd \<le> last_update_id s
      \<longrightarrow> apply_update s upd = Inr (True, s))
   \<and> (apply_update s upd = Inr (r, s') \<longrightarrow> (\<exists>r'. apply_update s' upd = Inr (r', s')))"
proof (intro conjI impI)
  assume "first_id upd \<le> last_update_id s + 1 \<and> upd_u upd \<le> last_update_id s"
  then show "apply_update s upd = Inr (True, s)"
    by (simp add: apply_update_def)
next
  assume once: "apply_update s upd = Inr (r, s')"
  show "\<exists>r'. apply_update s' upd = Inr (r', s')"
  proof (cases "first_id upd > last_update_id s + 1 \<or> upd_u upd \<le> last_update_id s")
    case True
    with once have "s' = s"
      by (auto simp: apply_update_def Let_def split: if_splits)
    with once show ?thesis by auto
  next
    case False
    with once have "last_update_id s' = upd_u upd"
      by (auto simp: apply_update_def Let_def split: if_splits sum.splits)
    with False have "first_id upd \<le> last_update_id s' + 1" "upd_u upd \<le> last_update_id s'"
      by auto
    then have "apply_update s' upd = Inr (True, s')"
      by (simp add: apply_update_def)
    then show ?thesis by blast
  qed
qed

theorem apply_update_stale_witness:
  "apply_update (OrderBook_init ''BNBUSDT''\<lparr>last_update_id := 100\<rparr>)
     \<lparr>upd_U = Some 99, upd_u = 100, upd_b = Some [(''99.00'', ''1'')], upd_a = None\<rparr>
     = Inr (True, OrderBook_init ''BNBUSDT''\<lparr>last_update_id := 100\<rparr>)
   \<and> (\<exists>r'. apply_update (OrderBook_init ''BNBUSDT''\<lparr>last_update_id := 100\<rparr>)
        \<lparr>upd_U = Some 99, upd_u = 100, upd_b = Some [(''99.00'', ''1'')], upd_a = None\<rparr>
       = Inr (r', OrderBook_init ''BNBUSDT''\<lparr>last_update_id := 100\<rparr>))"
proof -
  let ?s = "OrderBook_init ''BNBUSDT''\<lparr>last_update_id := 100\<rparr>"
  let ?u = "\<lparr>upd_U = Some 99, upd_u = 100, upd_b = Some [(''99.00'', ''1'')], upd_a = None\<rparr>"
  have pre: "first_id ?u \<le> last_update_id ?s + 1 \<and> upd_u ?u \<le> last_update_id ?s"
    by (simp add: first_id_def)
  have one: "apply_update ?s ?u = Inr (True, ?s)"
    using apply_update_stale [of ?u ?s] pre by blast
  have two: "\<exists>r'. apply_update ?s ?u = Inr (r', ?s)"
    using apply_update_stale [of ?u ?s True ?s] one by blast
  from one two show ?thesis by blast
qed

lemma mid_price_empty: "cache_ok s \<Longrightarrow> bids s = [] \<Longrightarrow> asks s = [] \<Longrightarrow> mid_price s = 0"
  by (simp add: mid_price_def best_bid_empty best_ask_empty)

text \<open>
  C10. With no bids the best bid is the sentinel \<open>0\<close>, likewise for asks; with both sides
  empty the mid price is \<open>0\<close>, the binned ladder is the empty list for every bin size and
  level count, and the artifact a client builds from such a book has zero best prices and no
  levels.
\<close>

theorem empty_book_sentinels:
  assumes "reachable s"
  shows "(bids s = [] \<longrightarrow> best_bid s = 0) \<and> (asks s = [] \<longrightarrow> best_ask s = 0)
    \<and> (bids s = [] \<and> asks s = [] \<longrightarrow>
          mid_price s = 0 \<and> get_binned_ladder s bsz lv = Inr []
          \<and> (orderbook c = s \<longrightarrow>
               build_snapshot c wall_ms
                 = Inr (DOMSnapshot (client_symbol c) 0 0 0 0 [] wall_ms (updates_per_sec c))))"
proof -
  from assms have ok: "cache_ok s" by (rule reachable_cache_ok)
  have "get_binned_ladder s bsz lv = Inr []" if "bids s = []" "asks s = []"
    using that ok by (simp add: get_binned_ladder_def mid_price_empty)
  moreover have "build_snapshot c wall_ms
      = Inr (DOMSnapshot (client_symbol c) 0 0 0 0 [] wall_ms (updates_per_sec c))"
    if "bids s = []" "asks s = []" "orderbook c = s"
    using that ok
    by (simp add: build_snapshot_def get_binned_ladder_def mid_price_empty best_bid_empty
        best_ask_empty merge_with_book_def)
  ultimately show ?thesis
    using ok by (auto simp: best_bid_empty best_ask_empty mid_price_empty)
qed

theorem empty_book_sentinels_witness:
  "best_bid (OrderBook_init ''BNBUSDT'') = 0 \<and> best_ask (OrderBook_init ''BNBUSDT'') = 0
   \<and> mid_price (OrderBook_init ''BNBUSDT'') = 0
   \<and> get_binned_ladder (OrderBook_init ''BNBUSDT'') 1 25 = Inr []
   \<and> build_snapshot (BinanceClient_init ''BNBUSDT'' 1 25 60 100 0 :: rat BinanceClient) 1700000000000
        = Inr (DOMSnapshot ''BNBUSDT'' 0 0 0 0 [] 1700000000000 0)"
proof -
  let ?c = "BinanceClient_init ''BNBUSDT'' 1 25 60 100 0 :: rat BinanceClient"
  have r: "reachable (OrderBook_init ''BNBUSDT'')" by (rule reachable.init)
  have e: "bids (OrderBook_init ''BNBUSDT'') = []" "asks (OrderBook_init ''BNBUSDT'') = []"
    by (simp_all add: OrderBook_init_def)
  have c: "orderbook ?c = OrderBook_init ''BNBUSDT''" "client_symbol ?c = ''BNBUSDT''"
    "updates_per_sec ?c = 0"
    by (simp_all add: BinanceClient_init_def)
  from empty_book_sentinels [OF r, of 1 25 ?c 1700000000000] e c show ?thesis by simp
qed

lemma mid_price_cases:
  "mid_price s =
     (if best_bid s > 0 \<and> best_ask s > 0 then (best_bid s + best_ask s) / 2
      else if best_bid s \<noteq> 0 then best_bid s else best_ask s)"
  by (simp add: mid_price_def Let_def)

text \<open>
  C8 (as the code has it). At every reachable book the best bid is the largest bid price and
  the best ask the smallest ask price; the mid price is their average when both sides are
  non-empty and both best prices are positive (which they are when all prices are), the best
  price of the non-empty side when exactly one side is non-empty, and \<open>0\<close> when both are empty.
\<close>

theorem mid_price_by_sides:
  assumes "reachable s"
  shows "(bids s \<noteq> [] \<longrightarrow> best_bid s = Max (fst ` set (bids s)))
    \<and> (asks s \<noteq> [] \<longrightarrow> best_ask s = Min (fst ` set (asks s)))
    \<and> (bids s \<noteq> [] \<and> asks s \<noteq> [] \<and> 0 < best_bid s \<and> 0 < best_ask s
          \<longrightarrow> mid_price s = (best_bid s + best_ask s) / 2)
    \<and> (bids s \<noteq> [] \<and> asks s = [] \<longrightarrow> mid_price s = best_bid s)
    \<and> (bids s = [] \<and> asks s \<noteq> [] \<longrightarrow> mid_price s = best_ask s)
    \<and> (bids s = [] \<and> asks s = [] \<longrightarrow> mid_price s = 0)"
proof -
  from assms have ok: "cache_ok s" by (rule reachable_cache_ok)
  have "mid_price s = best_bid s" if "asks s = []"
    using that ok by (simp add: mid_price_cases best_ask_empty)
  moreover have "mid_price s = best_ask s" if "bids s = []"
    using that ok by (simp add: mid_price_cases best_bid_empty)
  moreover have "mid_price s = (best_bid s + best_ask s) / 2" if "0 < best_bid s" "0 < best_ask s"
    using that by (simp add: mid_price_cases)
  moreover have "best_bid s = Max (fst ` set (bids s))" if "bids s \<noteq> []"
    using that ok by (rule best_bid_Max [rotated])
  moreover have "best_ask s = Min (fst ` set (asks s))" if "asks s \<noteq> []"
    using that ok by (rule best_ask_Min [rotated])
  moreover have "mid_price s = 0" if "bids s = []" "asks s = []"
    using that ok by (simp add: mid_price_empty)
  ultimately show ?thesis by blast
qed

theorem mid_price_by_sides_witness:
  "best_bid \<lparr>symbol = ''BNBUSDT'', bids = [(99, 5)], asks = [(101, 3)], last_update_id = 1000,
        bid_prices_sorted = [99], ask_prices_sorted = [101], dirty = False, update_count = 0\<rparr> = 99
   \<and> best_ask \<lparr>symbol = ''BNBUSDT'', bids = [(99, 5)], asks = [(101, 3)], last_update_id = 1000,
        bid_prices_sorted = [99], ask_prices_sorted = [101], dirty = False, update_count = 0\<rparr> = 101
   \<and> mid_price \<lparr>symbol = ''BNBUSDT'', bids = [(99, 5)], asks = [(101, 3)], last_update_id = 1000,
        bid_prices_sorted = [99], ask_prices_sorted = [101], dirty = False, update_count = 0\<rparr> = 100
   \<and> mid_price \<lparr>symbol = ''BNBUSDT'', bids = [(99, 5)], asks = [], last_update_id = 1000,
        bid_prices_sorted = [99], ask_prices_sorted = [], dirty = False, update_count = 0\<rparr> = 99
   \<and> mid_price \<lparr>symbol = ''BNBUSDT'', bids = [], asks = [(101, 3)], last_update_id = 1000,
        bid_prices_sorted = [], ask_prices_sorted = [101], dirty = False, update_count = 0\<rparr> = 101
   \<and> mid_price (OrderBook_init ''BNBUSDT'') = 0"
proof -
  let ?both = "\<lparr>symbol = ''BNBUSDT'', bids = [(99, 5)], asks = [(101, 3)], last_update_id = 1000,
        bid_prices_sorted = [99], ask_prices_sorted = [101], dirty = False, update_count = 0\<rparr>"
  let ?bid = "\<lparr>symbol = ''BNBUSDT'', bids = [(99, 5)], asks = [], last_update_id = 1000,
        bid_prices_sorted = [99], ask_prices_sorted = [], dirty = False, update_count = 0\<rparr>"
  let ?ask = "\<lparr>symbol = ''BNBUSDT'', bids = [], asks = [(101, 3)], last_update_id = 1000,
        bid_prices_sorted = [], ask_prices_sorted = [101], dirty = False, update_count = 0\<rparr>"
  have "load_snapshot (OrderBook_init ''BNBUSDT'')
      \<lparr>lastUpdateId = 1000, snap_bids = [(''99.00'', ''5'')], snap_asks = [(''101.00'', ''3'')]\<rparr>
      = Inr ?both"
    by (simp add: load_snapshot_def OrderBook_init_def py_float_def digit_of_def
        ensure_sorted_def)
  then have r1: "reachable ?both" by (rule reachable.snapshot [OF reachable.init])
  have "load_snapshot (OrderBook_init ''BNBUSDT'')
      \<lparr>lastUpdateId = 1000, snap_bids = [(''99.00'', ''5'')], snap_asks = []\<rparr> = Inr ?bid"
    by (simp add: load_snapshot_def OrderBook_init_def py_float_def digit_of_def
        ensure_sorted_def)
  then have r2: "reachable ?bid" by (rule reachable.snapshot [OF reachable.init])
  have "load_snapshot (OrderBook_init ''BNBUSDT'')
      \<lparr>lastUpdateId = 1000, snap_bids = [], snap_asks = [(''101.00'', ''3'')]\<rparr> = Inr ?ask"
    by (simp add: load_snapshot_def OrderBook_init_def py_float_def digit_of_def
        ensure_sorted_def)
  then have r3: "reachable ?ask" by (rule reachable.snapshot [OF reachable.init])
  have r4: "reachable (OrderBook_init ''BNBUSDT'')" by (rule reachable.init)
  have b: "best_bid ?both = 99" "best_ask ?both = 101" "best_bid ?bid = 99" "best_ask ?ask = 101"
    by (simp_all add: best_bid_def best_ask_def ensure_sorted_def)
  have e: "bids (OrderBook_init ''BNBUSDT'') = []" "asks (OrderBook_init ''BNBUSDT'') = []"
    by (simp_all add: OrderBook_init_def)
  from mid_price_by_sides [OF r1] b have "mid_price ?both = 100" by simp
  moreover from mid_price_by_sides [OF r2] b have "mid_price ?bid = 99" by simp
  moreover from mid_price_by_sides [OF r3] b have "mid_price ?ask = 101" by simp
  moreover from mid_price_by_sides [OF r4] e have "mid_price (OrderBook_init ''BNBUSDT'') = 0"
    by simp
  ultimately show ?thesis using b by simp
qed

text \<open>
  C8 as stated fails on a book both of whose sides are non-empty when a best price is not
  positive: with a bid at price \<open>0\<close> and an ask at \<open>5\<close> the mid price is \<open>5\<close>, not \<open>5 / 2\<close>.
\<close>

theorem mid_price_counterexample:
  "load_snapshot (OrderBook_init ''BNBUSDT'')
      \<lparr>lastUpdateId = 1000, snap_bids = [(''0.00'', ''1'')], snap_asks = [(''5.00'', ''1'')]\<rparr>
     = Inr \<lparr>symbol = ''BNBUSDT'', bids = [(0, 1)], asks = [(5, 1)], last_update_id = 1000,
        bid_prices_sorted = [0], ask_prices_sorted = [5], dirty = False, update_count = 0\<rparr>
   \<and> best_bid \<lparr>symbol = ''BNBUSDT'', bids = [(0, 1)], asks = [(5, 1)], last_update_id = 1000,
        bid_prices_sorted = [0], ask_prices_sorted = [5], dirty = False, update_count = 0\<rparr> = 0
   \<and> best_ask \<lparr>symbol = ''BNBUSDT'', bids = [(0, 1)], asks = [(5, 1)], last_update_id = 1000,
        bid_prices_sorted = [0], ask_prices_sorted = [5], dirty = False, update_count = 0\<rparr> = 5
   \<and> mid_price \<lparr>symbol = ''BNBUSDT'', bids = [(0, 1)], asks = [(5, 1)], last_update_id = 1000,
        bid_prices_sorted = [0], ask_prices_sorted = [5], dirty = False, update_count = 0\<rparr> = 5
   \<and> mid_price \<lparr>symbol = ''BNBUSDT'', bids = [(0, 1)], asks = [(5, 1)], last_update_id = 1000,
        bid_prices_sorted = [0], ask_prices_sorted = [5], dirty = False, update_count = 0\<rparr>
       \<noteq> (0 + 5) / 2"
  by (simp add: load_snapshot_def OrderBook_init_def py_float_def digit_of_def ensure_sorted_def
      best_bid_def best_ask_def mid_price_def)

text \<open>What the two loaders store.\<close>

lemma set_update_subset: "set (AList.update k v al) \<subseteq> insert (k, v) (set al)"
  by (induction al) auto

lemma set_delete_subset: "set (AList.delete k al) \<subseteq> set al"
  by (auto simp: AList.delete_eq)

lemma load_side_positive:
  "load_side es d = Inr d' \<Longrightarrow> \<forall>(p, q)\<in>set d. 0 < q \<Longrightarrow> \<forall>(p, q)\<in>set d'. 0 < q"
proof (induction es d rule: load_side.induct)
  case (1 d)
  then show ?case by simp
next
  case (2 price_str qty_str rest d)
  from "2.prems"(1) obtain p q where
    pq: "py_float price_str = Some p" "py_float qty_str = Some q"
    and rec: "load_side rest (if q > 0 then AList.update p q d else d) = Inr d'"
    by (auto split: option.splits)
  have "\<forall>(p', q')\<in>set (if q > 0 then AList.update p q d else d). 0 < q'"
    using "2.prems"(2) set_update_subset [of p q d] by auto
  with "2.IH" [OF pq] rec show ?case by blast
qed

lemma update_side_nonzero:
  "update_side es d = Inr d' \<Longrightarrow> \<forall>(p, q)\<in>set d. q \<noteq> 0 \<Longrightarrow> \<forall>(p, q)\<in>set d'. q \<noteq> 0"
proof (induction es d rule: update_side.induct)
  case (1 d)
  then show ?case by simp
next
  case (2 price_str qty_str rest d)
  from "2.prems"(1) obtain p q where
    pq: "py_float price_str = Some p" "py_float qty_str = Some q"
    and rec: "update_side rest (if q = 0 then AList.delete p d else AList.update p q d) = Inr d'"
    by (auto split: option.splits)
  have "\<forall>(p', q')\<in>set (if q = 0 then AList.delete p d else AList.update p q d). q' \<noteq> 0"
    using "2.prems"(2) set_update_subset [of p q d] set_delete_subset [of p d] by auto
  with "2.IH" [OF pq] rec show ?case by blast
qed

lemma reachable_no_zero_qty:
  "reachable s \<Longrightarrow> (\<forall>(p, q)\<in>set (bids s). q \<noteq> 0) \<and> (\<forall>(p, q)\<in>set (asks s). q \<noteq> 0)"
proof (induction rule: reachable.induct)
  case (init name)
  show ?case by (simp add: OrderBook_init_def)
next
  case (snapshot s data s')
  from snapshot(2) obtain bs as where
    l: "load_side (snap_bids data) [] = Inr bs" "load_side (snap_asks data) [] = Inr as"
    and s': "bids s' = bs" "asks s' = as"
    by (auto simp: load_snapshot_def split: sum.splits)
  from load_side_positive [OF l(1)] load_side_positive [OF l(2)] s' show ?case
    by fastforce
next
  case (update s upd r s')
  show ?case
  proof (cases "s' = s")
    case True
    with update.IH show ?thesis by simp
  next
    case False
    with update(2) obtain bs as where
      l: "update_side (entries (upd_b upd)) (bids s) = Inr bs"
         "update_side (entries (upd_a upd)) (asks s) = Inr as"
      and s': "bids s' = bs" "asks s' = as"
      by (auto simp: apply_update_def Let_def split: if_splits sum.splits)
    from update_side_nonzero [OF l(1)] update_side_nonzero [OF l(2)] update.IH s'
    show ?thesis by blast
  qed
next
  case (query s)
  then show ?case by simp
qed

text \<open>
  C5. The claim holds for snapshots and for zero quantities in a diff, but a diff entry with a
  negative quantity is stored: after the snapshot \<open>99.00 \<mapsto> 5\<close> the diff \<open>(99.00, -1)\<close> leaves
  the bid level \<open>99\<close> with the quantity \<open>- 1\<close>.
\<close>

theorem negative_diff_quantity_stored:
  "load_snapshot (OrderBook_init ''BNBUSDT'')
      \<lparr>lastUpdateId = 1000, snap_bids = [(''99.00'', ''5'')], snap_asks = [(''101.00'', ''3'')]\<rparr>
     = Inr \<lparr>symbol = ''BNBUSDT'', bids = [(99, 5)], asks = [(101, 3)], last_update_id = 1000,
        bid_prices_sorted = [99], ask_prices_sorted = [101], dirty = False, update_count = 0\<rparr>
   \<and> apply_update
        \<lparr>symbol = ''BNBUSDT'', bids = [(99, 5)], asks = [(101, 3)], last_update_id = 1000,
          bid_prices_sorted = [99], ask_prices_sorted = [101], dirty = False, update_count = 0\<rparr>
        \<lparr>upd_U = Some 1001, upd_u = 1001, upd_b = Some [(''99.00'', ''-1'')], upd_a = Some []\<rparr>
     = Inr (True,
        \<lparr>symbol = ''BNBUSDT'', bids = [(99, - 1)], asks = [(101, 3)], last_update_id = 1001,
          bid_prices_sorted = [99], ask_prices_sorted = [101], dirty = True, update_count = 1\<rparr>)"
  by (simp add: load_snapshot_def OrderBook_init_def py_float_def digit_of_def ensure_sorted_def
      apply_update_def first_id_def entries_def)

section \<open>The binned ladder in exact arithmetic\<close>

lemma update_absent: "k \<notin> fst ` set al \<Longrightarrow> AList.update k v al = al @ [(k, v)]"
  by (induction al) auto

lemma update_present:
  "k \<in> fst ` set al \<Longrightarrow>
     map fst (AList.update k v al) = map fst al"
  by (induction al) auto

lemma fold_update_fresh:
  "distinct (map f xs) \<Longrightarrow> f ` set xs \<inter> fst ` set acc = {} \<Longrightarrow>
     fold (\<lambda>i bins. AList.update (f i) v bins) xs acc = acc @ map (\<lambda>i. (f i, v)) xs"
proof (induction xs arbitrary: acc)
  case Nil
  then show ?case by simp
next
  case (Cons x xs)
  from Cons.prems have fresh: "f x \<notin> fst ` set acc" by auto
  have "f ` set xs \<inter> fst ` set (acc @ [(f x, v)]) = {}"
    using Cons.prems by auto
  moreover from Cons.prems have "distinct (map f xs)" by simp
  ultimately show ?case
    using Cons.IH [of "acc @ [(f x, v)]"] fresh by (simp add: update_absent)
qed

lemma centers_inj:
  fixes b :: rat
  assumes "b \<noteq> 0"
  shows "inj (\<lambda>i::int. c + of_int i * b)"
  using assms by (auto simp: inj_on_def)

lemma alloc_bins_eq:
  assumes "b \<noteq> 0"
  shows "alloc_bins c b lv = map (\<lambda>i. (c + of_int i * b, (0, 0))) [- lv..lv]"
proof -
  have "distinct (map (\<lambda>i. c + of_int i * b) [- lv..lv])"
    using centers_inj [OF assms, of c] by (simp add: distinct_map inj_on_def)
  then show ?thesis
    unfolding alloc_bins_def
    using fold_update_fresh [of "\<lambda>i. c + of_int i * b" "[- lv..lv]" "[]" "(0, 0)"] by simp
qed

lemma alloc_bins_keys:
  assumes "b \<noteq> 0"
  shows "map fst (alloc_bins c b lv) = map (\<lambda>i. c + of_int i * b) [- lv..lv]"
    and "distinct (map fst (alloc_bins c b lv))"
proof -
  show k: "map fst (alloc_bins c b lv) = map (\<lambda>i. c + of_int i * b) [- lv..lv]"
    by (simp add: alloc_bins_eq [OF assms] comp_def)
  show "distinct (map fst (alloc_bins c b lv))"
    unfolding k using centers_inj [OF assms, of c] by (simp add: distinct_map inj_on_def)
qed

text \<open>On a dict, assigning to a key that is present rewrites that one entry in place.\<close>

lemma update_map:
  "distinct (map fst al) \<Longrightarrow> k \<in> fst ` set al \<Longrightarrow>
     AList.update k v al = map (\<lambda>(k', v'). if k' = k then (k, v) else (k', v')) al"
proof (induction al)
  case Nil
  then show ?case by simp
next
  case (Cons a al)
  show ?case
  proof (cases "fst a = k")
    case True
    with Cons.prems have "k \<notin> fst ` set al" by auto
    then have "map (\<lambda>(k', v'). if k' = k then (k, v) else (k', v')) al = al"
      by (induction al) auto
    with True show ?thesis by (cases a) simp
  next
    case False
    with Cons show ?thesis by (cases a) auto
  qed
qed

lemma add_bid_map:
  assumes "distinct (map fst bins)"
  shows "add_bid b pq bins =
     map (\<lambda>(c, bq, aq). (c, bq + (if bin_center_of b (fst pq) = c then snd pq else 0), aq)) bins"
proof (cases "map_of bins (bin_center_of b (fst pq))")
  case None
  then have "bin_center_of b (fst pq) \<notin> fst ` set bins"
    by (simp add: map_of_eq_None_iff)
  then have "map (\<lambda>(c, bq, aq). (c, bq + (if bin_center_of b (fst pq) = c then snd pq else 0), aq)) bins
      = bins"
    by (induction bins) auto
  with None show ?thesis
    by (simp add: add_bid_def bin_center_of_def floordiv_def)
next
  case (Some v)
  obtain bq aq where v: "v = (bq, aq)" by (cases v)
  from Some have mem: "(bin_center_of b (fst pq), bq, aq) \<in> set bins"
    unfolding v by (rule map_of_SomeD)
  then have key: "bin_center_of b (fst pq) \<in> fst ` set bins" by force
  have "map (\<lambda>(k', v'). if k' = bin_center_of b (fst pq)
                then (bin_center_of b (fst pq), bq + snd pq, aq) else (k', v')) bins
      = map (\<lambda>(c, bq, aq). (c, bq + (if bin_center_of b (fst pq) = c then snd pq else 0), aq)) bins"
  proof (rule map_cong [OF refl])
    fix x assume x: "x \<in> set bins"
    obtain c bq' aq' where xe: "x = (c, bq', aq')" by (cases x)
    show "(case x of (k', v') \<Rightarrow> if k' = bin_center_of b (fst pq)
                then (bin_center_of b (fst pq), bq + snd pq, aq) else (k', v'))
        = (case x of (c, bq, aq) \<Rightarrow>
             (c, bq + (if bin_center_of b (fst pq) = c then snd pq else 0), aq))"
    proof (cases "c = bin_center_of b (fst pq)")
      case True
      with x xe mem assms have "(bq', aq') = (bq, aq)"
        by (metis map_of_is_SomeI option.inject)
      with True xe show ?thesis by simp
    next
      case False
      with xe show ?thesis by auto
    qed
  qed
  with Some v update_map [OF assms key] show ?thesis
    by (simp add: add_bid_def bin_center_of_def floordiv_def)
qed

lemma add_ask_map:
  assumes "distinct (map fst bins)"
  shows "add_ask b pq bins =
     map (\<lambda>(c, bq, aq). (c, bq, aq + (if bin_center_of b (fst pq) = c then snd pq else 0))) bins"
proof (cases "map_of bins (bin_center_of b (fst pq))")
  case None
  then have "bin_center_of b (fst pq) \<notin> fst ` set bins"
    by (simp add: map_of_eq_None_iff)
  then have "map (\<lambda>(c, bq, aq). (c, bq, aq + (if bin_center_of b (fst pq) = c then snd pq else 0))) bins
      = bins"
    by (induction bins) auto
  with None show ?thesis
    by (simp add: add_ask_def bin_center_of_def floordiv_def)
next
  case (Some v)
  obtain bq aq where v: "v = (bq, aq)" by (cases v)
  from Some have mem: "(bin_center_of b (fst pq), bq, aq) \<in> set bins"
    unfolding v by (rule map_of_SomeD)
  then have key: "bin_center_of b (fst pq) \<in> fst ` set bins" by force
  have "map (\<lambda>(k', v'). if k' = bin_center_of b (fst pq)
                then (bin_center_of b (fst pq), bq, aq + snd pq) else (k', v')) bins
      = map (\<lambda>(c, bq, aq). (c, bq, aq + (if bin_center_of b (fst pq) = c then snd pq else 0))) bins"
  proof (rule map_cong [OF refl])
    fix x assume x: "x \<in> set bins"
    obtain c bq' aq' where xe: "x = (c, bq', aq')" by (cases x)
    show "(case x of (k', v') \<Rightarrow> if k' = bin_center_of b (fst pq)
                then (bin_center_of b (fst pq), bq, aq + snd pq) else (k', v'))
        = (case x of (c, bq, aq) \<Rightarrow>
             (c, bq, aq + (if bin_center_of b (fst pq) = c then snd pq else 0)))"
    proof (cases "c = bin_center_of b (fst pq)")
      case True
      with x xe mem assms have "(bq', aq') = (bq, aq)"
        by (metis map_of_is_SomeI option.inject)
      with True xe show ?thesis by simp
    next
      case False
      with xe show ?thesis by auto
    qed
  qed
  with Some v update_map [OF assms key] show ?thesis
    by (simp add: add_ask_def bin_center_of_def floordiv_def)
qed

lemma fold_add_bid:
  "distinct (map fst bins) \<Longrightarrow>
     fold (add_bid b) side bins = map (\<lambda>(c, bq, aq). (c, bq + bin_total b side c, aq)) bins"
proof (induction side arbitrary: bins)
  case Nil
  show ?case by (simp add: bin_total_def case_prod_unfold)
next
  case (Cons pq side)
  let ?bins = "map (\<lambda>(c, bq, aq).
      (c, bq + (if bin_center_of b (fst pq) = c then snd pq else 0), aq)) bins"
  have keys: "map fst ?bins = map fst bins" by (induction bins) auto
  from Cons.prems have "distinct (map fst ?bins)" by (simp only: keys)
  from Cons.IH [OF this] add_bid_map [OF Cons.prems, of b pq] show ?case
    by (auto simp: bin_total_def case_prod_unfold)
qed

lemma fold_add_ask:
  "distinct (map fst bins) \<Longrightarrow>
     fold (add_ask b) side bins = map (\<lambda>(c, bq, aq). (c, bq, aq + bin_total b side c)) bins"
proof (induction side arbitrary: bins)
  case Nil
  show ?case by (simp add: bin_total_def case_prod_unfold)
next
  case (Cons pq side)
  let ?bins = "map (\<lambda>(c, bq, aq).
      (c, bq, aq + (if bin_center_of b (fst pq) = c then snd pq else 0))) bins"
  have keys: "map fst ?bins = map fst bins" by (induction bins) auto
  from Cons.prems have "distinct (map fst ?bins)" by (simp only: keys)
  from Cons.IH [OF this] add_ask_map [OF Cons.prems, of b pq] show ?case
    by (auto simp: bin_total_def case_prod_unfold)
qed

lemma insort_key_graph:
  "insort_key fst (c, g c) (map (\<lambda>k. (k, g k)) ks) = map (\<lambda>k. (k, g k)) (insort c ks)"
  by (induction ks) auto

lemma sort_key_graph:
  "sort_key fst (map (\<lambda>k. (k, g k)) ks) = map (\<lambda>k. (k, g k)) (sort ks)"
  by (induction ks) (simp_all add: insort_key_graph)

text \<open>The ladder in closed form: one level per allocated centre, in descending order, each
  holding the totals of its bin.\<close>

lemma get_binned_ladder_eq:
  assumes "mid_price s \<noteq> 0" "b \<noteq> 0"
  shows "get_binned_ladder s b lv =
     Inr (map (\<lambda>c. BinnedLevel c (bin_total b (bids s) c) (bin_total b (asks s) c))
            (rev (sort (map (\<lambda>i. bin_center_of b (mid_price s) + of_int i * b) [- lv..lv]))))"
proof -
  let ?cb = "bin_center_of b (mid_price s)"
  let ?ks = "map (\<lambda>i. ?cb + of_int i * b) [- lv..lv]"
  let ?g = "\<lambda>c. (bin_total b (bids s) c, bin_total b (asks s) c)"
  have b0: "alloc_bins ?cb b lv = map (\<lambda>k. (k, (0, 0))) ?ks"
    by (simp add: alloc_bins_eq [OF assms(2)] comp_def)
  have d0: "distinct (map fst (alloc_bins ?cb b lv))"
    by (rule alloc_bins_keys(2) [OF assms(2)])
  have b1: "fold (add_bid b) (bids s) (alloc_bins ?cb b lv)
      = map (\<lambda>k. (k, (bin_total b (bids s) k, 0))) ?ks"
    by (simp only: fold_add_bid [OF d0]) (simp add: b0 comp_def)
  have "map fst (map (\<lambda>k. (k, (bin_total b (bids s) k, 0::rat))) ?ks) = ?ks"
    by (simp add: comp_def)
  with d0 b0 have d1: "distinct (map fst (map (\<lambda>k. (k, (bin_total b (bids s) k, 0::rat))) ?ks))"
    by (simp add: comp_def)
  have b2: "fold (add_ask b) (asks s) (fold (add_bid b) (bids s) (alloc_bins ?cb b lv))
      = map (\<lambda>k. (k, ?g k)) ?ks"
    unfolding b1 by (simp only: fold_add_ask [OF d1]) (simp add: comp_def)
  have "get_binned_ladder s b lv =
      Inr (map (\<lambda>(c, bq, aq). BinnedLevel c bq aq) (rev (sort_key fst (map (\<lambda>k. (k, ?g k)) ?ks))))"
    using assms b2
    by (simp add: get_binned_ladder_def Let_def bin_center_of_def floordiv_def)
  also have "sort_key fst (map (\<lambda>k. (k, ?g k)) ?ks) = map (\<lambda>k. (k, ?g k)) (sort ?ks)"
    by (rule sort_key_graph)
  finally show ?thesis by (simp add: rev_map comp_def)
qed

lemma centers_facts:
  fixes b :: rat
  assumes "b \<noteq> 0"
  shows "distinct (map (\<lambda>i. c + of_int i * b) [- lv..lv])"
    and "set (rev (sort (map (\<lambda>i. c + of_int i * b) [- lv..lv]))) = (\<lambda>i. c + of_int i * b) ` {- lv..lv}"
    and "sorted_wrt (>) (rev (sort (map (\<lambda>i. c + of_int i * b) [- lv..lv])))"
proof -
  show d: "distinct (map (\<lambda>i. c + of_int i * b) [- lv..lv])"
    using centers_inj [OF assms, of c] by (simp add: distinct_map inj_on_def)
  show "set (rev (sort (map (\<lambda>i. c + of_int i * b) [- lv..lv]))) = (\<lambda>i. c + of_int i * b) ` {- lv..lv}"
    by simp
  have "sorted_wrt (<) (sort (map (\<lambda>i. c + of_int i * b) [- lv..lv]))"
    using d by (simp add: strict_sorted_iff)
  then show "sorted_wrt (>) (rev (sort (map (\<lambda>i. c + of_int i * b) [- lv..lv])))"
    by (simp add: sorted_wrt_rev)
qed

lemma floor_rat_numeral [simp]: "\<lfloor>numeral a / numeral b :: rat\<rfloor> = numeral a div numeral b"
  by (metis floor_divide_of_int_eq of_int_numeral)

lemma floor_rat_neg_numeral [simp]:
  "\<lfloor>- numeral a / numeral b :: rat\<rfloor> = - numeral a div numeral b"
  by (metis divide_minus_left floor_divide_of_int_eq of_int_neg_numeral of_int_numeral)


lemma sum_list_indicator:
  fixes v :: rat
  assumes "distinct ks"
  shows "sum_list (map (\<lambda>c. if k = c then v else 0) ks) = (if k \<in> set ks then v else 0)"
  using assms by (induction ks) auto

lemma sum_bin_totals:
  assumes "distinct ks"
  shows "sum_list (map (bin_total b side) ks)
     = sum_list (map snd (filter (\<lambda>pq. bin_center_of b (fst pq) \<in> set ks) side))"
proof (induction side)
  case Nil
  show ?case by (simp add: bin_total_def)
next
  case (Cons pq side)
  have "sum_list (map (bin_total b (pq # side)) ks)
      = sum_list (map (\<lambda>c. (if bin_center_of b (fst pq) = c then snd pq else 0)
                              + bin_total b side c) ks)"
    by (rule arg_cong [where f = sum_list], rule map_cong) (auto simp: bin_total_def)
  also have "\<dots> = sum_list (map (\<lambda>c. if bin_center_of b (fst pq) = c then snd pq else 0) ks)
      + sum_list (map (bin_total b side) ks)"
    by (simp add: sum_list_addf)
  also have "\<dots> = (if bin_center_of b (fst pq) \<in> set ks then snd pq else 0)
      + sum_list (map (bin_total b side) ks)"
    by (simp only: sum_list_indicator [OF assms])
  finally show ?case using Cons.IH by simp
qed

lemma filter_all: "\<forall>x\<in>set xs. P x \<Longrightarrow> filter P xs = xs"
  by (induction xs) auto

text \<open>With exact arithmetic the two expressions for a bin centre agree: whenever the call
  returns and every bid price has its bin centre among the returned levels, the bid
  quantities of the levels add up to those of the bid map; likewise for the asks.\<close>

lemma exact_binning_conserves:
  assumes "get_binned_ladder s bsz lv = Inr ls"
  shows "((\<forall>pq\<in>set (bids s). bin_center_of bsz (fst pq) \<in> bin_price ` set ls)
            \<longrightarrow> sum_list (map bid_qty ls) = sum_list (map snd (bids s)))
       \<and> ((\<forall>pq\<in>set (asks s). bin_center_of bsz (fst pq) \<in> bin_price ` set ls)
            \<longrightarrow> sum_list (map ask_qty ls) = sum_list (map snd (asks s)))"
proof (cases "mid_price s = 0")
  case True
  with assms have "ls = []" by (simp add: get_binned_ladder_def)
  then show ?thesis by (cases "bids s"; cases "asks s") auto
next
  case False
  with assms have b: "bsz \<noteq> 0"
    by (auto simp: get_binned_ladder_def)
  let ?ks = "rev (sort (map (\<lambda>i. bin_center_of bsz (mid_price s) + of_int i * bsz) [- lv..lv]))"
  from assms get_binned_ladder_eq [OF False b, of lv]
  have ls: "ls = map (\<lambda>c. BinnedLevel c (bin_total bsz (bids s) c) (bin_total bsz (asks s) c)) ?ks"
    by simp
  have d: "distinct ?ks" using centers_facts(1) [OF b] by simp
  have "map bin_price ls = ?ks" unfolding ls by (simp add: comp_def)
  then have keys: "bin_price ` set ls = set ?ks" by (metis set_map)
  have bq: "sum_list (map bid_qty ls) = sum_list (map (bin_total bsz (bids s)) ?ks)"
    unfolding ls by (simp add: comp_def)
  have aq: "sum_list (map ask_qty ls) = sum_list (map (bin_total bsz (asks s)) ?ks)"
    unfolding ls by (simp add: comp_def)
  show ?thesis
    unfolding bq aq keys sum_bin_totals [OF d]
    by (auto simp: filter_all)
qed

section \<open>The binned ladder in double arithmetic\<close>

text \<open>A dict filled by assignments: its keys are distinct and are the keys assigned, each
  bound to the value assigned.\<close>

lemma fold_update_distinct:
  "distinct (map fst al) \<Longrightarrow> distinct (map fst (fold (\<lambda>k. AList.update k v) ks al))"
  by (induction ks arbitrary: al) (simp_all add: distinct_update)

lemma fold_update_dom:
  "fst ` set (fold (\<lambda>k. AList.update k v) ks al) = set ks \<union> fst ` set al"
  by (induction ks arbitrary: al) (auto simp add: dom_update)

lemma fold_update_map_of:
  "map_of (fold (\<lambda>k. AList.update k v) ks al) k = (if k \<in> set ks then Some v else map_of al k)"
  by (induction ks arbitrary: al) (auto simp add: update_conv')

lemma alloc_bins64_fold:
  "alloc_bins64 c b lv =
     fold (\<lambda>k. AList.update k (0, 0)) (map (\<lambda>i. val64 (c + float_of_int i * b)) [- lv..lv]) []"
  by (simp add: alloc_bins64_def fold_map comp_def)

lemma add_bid64_keys: "map fst (add_bid64 b pq bins) = map fst bins"
  by (auto simp add: add_bid64_def Let_def update_keys split: option.splits dest: map_of_SomeD)
     (metis fst_conv image_eqI map_of_SomeD)

lemma add_ask64_keys: "map fst (add_ask64 b pq bins) = map fst bins"
  by (auto simp add: add_ask64_def Let_def update_keys split: option.splits dest: map_of_SomeD)
     (metis fst_conv image_eqI map_of_SomeD)

lemma fold_add_bid64_keys: "map fst (fold (add_bid64 b) side bins) = map fst bins"
  by (induction side arbitrary: bins) (simp_all add: add_bid64_keys)

lemma fold_add_ask64_keys: "map fst (fold (add_ask64 b) side bins) = map fst bins"
  by (induction side arbitrary: bins) (simp_all add: add_ask64_keys)

lemma add_bid64_map_of:
  "map_of (add_bid64 b pq bins) k =
     (case map_of bins k of None \<Rightarrow> None
      | Some (bq, aq) \<Rightarrow>
          Some (if val64 (bin_center64 b (fst pq)) = k then bq + snd pq else bq, aq))"
  by (auto simp add: add_bid64_def bin_center64_def Let_def update_conv' split: option.splits)

lemma add_ask64_map_of:
  "map_of (add_ask64 b pq bins) k =
     (case map_of bins k of None \<Rightarrow> None
      | Some (bq, aq) \<Rightarrow>
          Some (bq, if val64 (bin_center64 b (fst pq)) = k then aq + snd pq else aq))"
  by (auto simp add: add_ask64_def bin_center64_def Let_def update_conv' split: option.splits)

lemma fold_add_bid64_map_of:
  "map_of (fold (add_bid64 b) side bins) k =
     (case map_of bins k of None \<Rightarrow> None
      | Some (bq, aq) \<Rightarrow>
          Some (foldl (+) bq (map snd (filter (\<lambda>pq. val64 (bin_center64 b (fst pq)) = k) side)), aq))"
proof (induction side arbitrary: bins)
  case Nil
  show ?case by (simp split: option.splits)
next
  case (Cons pq side)
  show ?case
    by (simp add: Cons.IH add_bid64_map_of split: option.splits)
qed

lemma fold_add_ask64_map_of:
  "map_of (fold (add_ask64 b) side bins) k =
     (case map_of bins k of None \<Rightarrow> None
      | Some (bq, aq) \<Rightarrow>
          Some (bq, foldl (+) aq (map snd (filter (\<lambda>pq. val64 (bin_center64 b (fst pq)) = k) side))))"
proof (induction side arbitrary: bins)
  case Nil
  show ?case by (simp split: option.splits)
next
  case (Cons pq side)
  show ?case
    by (simp add: Cons.IH add_ask64_map_of split: option.splits)
qed

text \<open>A dict with distinct keys is the graph of its lookup along its keys.\<close>

lemma alist_graph:
  "distinct (map fst xs) \<Longrightarrow> (\<And>k. k \<in> fst ` set xs \<Longrightarrow> map_of xs k = Some (g k)) \<Longrightarrow>
     xs = map (\<lambda>k. (k, g k)) (map fst xs)"
proof (induction xs)
  case Nil
  show ?case by simp
next
  case (Cons x xs)
  have "map_of xs k = Some (g k)" if "k \<in> fst ` set xs" for k
  proof -
    from that Cons.prems(1) have "k \<noteq> fst x" by (cases x) force
    with Cons.prems(2) [of k] that show ?thesis by (cases x) auto
  qed
  with Cons.IH Cons.prems(1) have "xs = map (\<lambda>k. (k, g k)) (map fst xs)" by simp
  moreover from Cons.prems(2) [of "fst x"] have "snd x = g (fst x)" by (cases x) simp
  ultimately show ?case by (cases x) simp
qed

lemma get_binned_ladder64_eq:
  assumes "val64 (mid_price64 bs as) \<noteq> 0" "val64 b \<noteq> 0"
  shows "get_binned_ladder64 bs as b lv =
     Inr (map (\<lambda>c. BinnedLevel64 c (bin_sum64 b bs c) (bin_sum64 b as c))
            (rev (sort (remdups (allocated64 bs as b lv)))))"
proof -
  let ?cb = "bin_center64 b (mid_price64 bs as)"
  let ?K = "allocated64 bs as b lv"
  let ?bins0 = "alloc_bins64 ?cb b lv"
  let ?bins2 = "fold (add_ask64 b) as (fold (add_bid64 b) bs ?bins0)"
  let ?g = "\<lambda>c. (bin_sum64 b bs c, bin_sum64 b as c)"
  have a0: "?bins0 = fold (\<lambda>k. AList.update k (0, 0)) ?K []"
    by (simp add: alloc_bins64_fold allocated64_def)
  have d0: "distinct (map fst ?bins0)"
    unfolding a0 by (rule fold_update_distinct) simp
  have s0: "fst ` set ?bins0 = set ?K"
    unfolding a0 by (simp add: fold_update_dom)
  have m0: "map_of ?bins0 k = (if k \<in> set ?K then Some (0, 0) else None)" for k
    unfolding a0 by (simp add: fold_update_map_of)
  have k2: "map fst ?bins2 = map fst ?bins0"
    by (simp add: fold_add_ask64_keys fold_add_bid64_keys)
  have m2: "map_of ?bins2 k = Some (?g k)" if "k \<in> fst ` set ?bins2" for k
  proof -
    from k2 have "fst ` set ?bins2 = fst ` set ?bins0" by (metis set_map)
    with that s0 have "k \<in> set ?K" by simp
    then show ?thesis
      by (simp add: fold_add_ask64_map_of fold_add_bid64_map_of m0 bin_sum64_def)
  qed
  from d0 k2 have d2: "distinct (map fst ?bins2)" by simp
  have "?bins2 = map (\<lambda>k. (k, ?g k)) (map fst ?bins2)"
    by (rule alist_graph [OF d2 m2])
  then have b2: "?bins2 = map (\<lambda>k. (k, ?g k)) (map fst ?bins0)"
    by (simp only: k2)
  have "sort (map fst ?bins0) = sort (remdups ?K)"
    by (rule sorted_distinct_set_unique) (simp_all add: d0 s0)
  then have "sort_key fst ?bins2 = map (\<lambda>k. (k, ?g k)) (sort (remdups ?K))"
    by (subst b2) (simp only: sort_key_graph)
  moreover have "get_binned_ladder64 bs as b lv =
      Inr (map (\<lambda>(c, bq, aq). BinnedLevel64 c bq aq) (rev (sort_key fst ?bins2)))"
    using assms by (simp add: get_binned_ladder64_def Let_def bin_center64_def)
  ultimately show ?thesis by (simp add: rev_map comp_def)
qed



text \<open>Doubles with one exponent compare as their mantissas do.\<close>

lemma val64_pos [simp]: "0 < val64 (B64 m e) \<longleftrightarrow> 0 < m"
  by (simp add: zero_less_divide_iff zero_less_mult_iff)

lemma val64_zero_iff [simp]: "val64 (B64 m e) = 0 \<longleftrightarrow> m = 0"
  by simp

lemma val64_less_same [simp]: "val64 (B64 m e) < val64 (B64 m' e) \<longleftrightarrow> m < m'"
  by (simp add: divide_less_cancel)

lemma val64_le_same [simp]: "val64 (B64 m e) \<le> val64 (B64 m' e) \<longleftrightarrow> m \<le> m'"
  by (simp add: divide_le_cancel)

lemma val64_eq_same [simp]: "val64 (B64 m e) = val64 (B64 m' e) \<longleftrightarrow> m = m'"
  by simp

text \<open>The book with one bid at \<^verbatim>\<open>100.01\<close> and one ask at \<^verbatim>\<open>100.11\<close>, one unit each, binned at
  \<^verbatim>\<open>0.1\<close>, the bin size \<^verbatim>\<open>main.py\<close> and \<^verbatim>\<open>gui.py\<close> take by default, with three levels each
  side of the mid price. Every operation of the call is evaluated on its own.\<close>

lemma f_price1: "round64 10001 100 = B64 7037578105208177 (- 46)" by code_simp
lemma f_price2: "round64 10011 100 = B64 7044614979625943 (- 46)" by code_simp
lemma f_one: "round64 1 1 = B64 4503599627370496 (- 52)" by code_simp
lemma f_tenth: "round64 1 10 = B64 7205759403792794 (- 56)" by code_simp

lemma f_mid:
  "halved (B64 7037578105208177 (- 46) + B64 7044614979625943 (- 46))
     = B64 7041096542417060 (- 46)"
  by code_simp

lemma f_center:
  "bin_center64 (B64 7205759403792794 (- 56)) (B64 7041096542417060 (- 46))
     = B64 7040392854975283 (- 46)"
  by code_simp

lemma f_bid_center:
  "bin_center64 (B64 7205759403792794 (- 56)) (B64 7037578105208177 (- 46))
     = B64 7040392854975283 (- 46)"
  by code_simp

lemma f_ask_center:
  "bin_center64 (B64 7205759403792794 (- 56)) (B64 7044614979625943 (- 46))
     = B64 7047429729393050 (- 46)"
  by code_simp

lemma f_keys:
  "B64 7040392854975283 (- 46) + float_of_int (- 3) * B64 7205759403792794 (- 56)
     = B64 7019282231721984 (- 46)"
  "B64 7040392854975283 (- 46) + float_of_int (- 2) * B64 7205759403792794 (- 56)
     = B64 7026319106139750 (- 46)"
  "B64 7040392854975283 (- 46) + float_of_int (- 1) * B64 7205759403792794 (- 56)
     = B64 7033355980557517 (- 46)"
  "B64 7040392854975283 (- 46) + float_of_int 0 * B64 7205759403792794 (- 56)
     = B64 7040392854975283 (- 46)"
  "B64 7040392854975283 (- 46) + float_of_int 1 * B64 7205759403792794 (- 56)
     = B64 7047429729393049 (- 46)"
  "B64 7040392854975283 (- 46) + float_of_int 2 * B64 7205759403792794 (- 56)
     = B64 7054466603810816 (- 46)"
  "B64 7040392854975283 (- 46) + float_of_int 3 * B64 7205759403792794 (- 56)
     = B64 7061503478228582 (- 46)"
  by code_simp+

lemma f_add_zero: "0 + B64 4503599627370496 (- 52) = B64 4503599627370496 (- 52)"
  by code_simp


lemma ex_mid:
  "mid_price64 [(B64 7037578105208177 (- 46), q)] [(B64 7044614979625943 (- 46), q')]
     = B64 7041096542417060 (- 46)"
  by (simp add: mid_price64_def best_bid64_def best_ask64_def f_mid
      del: plus_binary64.simps val64.simps)

lemma ex_alloc:
  "allocated64 [(B64 7037578105208177 (- 46), q)] [(B64 7044614979625943 (- 46), q')]
       (B64 7205759403792794 (- 56)) 3
   = map val64 [B64 7019282231721984 (- 46), B64 7026319106139750 (- 46),
       B64 7033355980557517 (- 46), B64 7040392854975283 (- 46),
       B64 7047429729393049 (- 46), B64 7054466603810816 (- 46),
       B64 7061503478228582 (- 46)]"
  by (simp add: allocated64_def ex_mid f_center f_keys upto_rec1
      del: plus_binary64.simps times_binary64.simps val64.simps)

lemma ex_ladder:
  "get_binned_ladder64 [(B64 7037578105208177 (- 46), B64 4503599627370496 (- 52))]
       [(B64 7044614979625943 (- 46), B64 4503599627370496 (- 52))]
       (B64 7205759403792794 (- 56)) 3
   = Inr [BinnedLevel64 (val64 (B64 7061503478228582 (- 46))) 0 0,
          BinnedLevel64 (val64 (B64 7054466603810816 (- 46))) 0 0,
          BinnedLevel64 (val64 (B64 7047429729393049 (- 46))) 0 0,
          BinnedLevel64 (val64 (B64 7040392854975283 (- 46))) (B64 4503599627370496 (- 52)) 0,
          BinnedLevel64 (val64 (B64 7033355980557517 (- 46))) 0 0,
          BinnedLevel64 (val64 (B64 7026319106139750 (- 46))) 0 0,
          BinnedLevel64 (val64 (B64 7019282231721984 (- 46))) 0 0]"
  by (subst get_binned_ladder64_eq)
     (simp_all add: ex_mid ex_alloc bin_sum64_def f_bid_center f_ask_center f_add_zero
        del: plus_binary64.simps times_binary64.simps val64.simps)


lemma ex_exact_center:
  "bin_center_of (val64 (B64 7205759403792794 (- 56))) (val64 (B64 7044614979625943 (- 46)))
     = bin_center_of (val64 (B64 7205759403792794 (- 56))) (val64 (B64 7041096542417060 (- 46)))
         + val64 (B64 7205759403792794 (- 56))"
  by (simp add: bin_center_of_def)

lemma ex_between:
  "val64 (B64 7019282231721984 (- 46)) < val64 (B64 7044614979625943 (- 46))"
  "val64 (B64 7044614979625943 (- 46)) < val64 (B64 7061503478228582 (- 46))"
  by (simp_all del: val64.simps)




lemma g_quotient:
  "floordiv64 (B64 6872016393076736 (- 37)) (B64 4951760157141521 (- 92))
     = B64 6250062500000000 3"
  by code_simp







text \<open>
  C4. The bid at \<^verbatim>\<open>100.01\<close> and the ask at \<^verbatim>\<open>100.11\<close>, binned at \<^verbatim>\<open>0.1\<close> with three levels:
  the ask lies between the lowest and the highest allocated centre, and in exact
  arithmetic its bin centre is the centre allocated one bin above the mid price. In doubles
  its centre is \<^verbatim>\<open>100.15\<close> and the allocated one is \<^verbatim>\<open>100.14999999999999\<close>, one unit in the
  last place below, so the ask is counted in no level: every ask quantity of the ladder is
  zero while the ask map holds one unit. The bid is counted.
\<close>

theorem double_ladder_drops_ask:
  "\<exists>ls. get_binned_ladder64 [(round64 10001 100, round64 1 1)]
          [(round64 10011 100, round64 1 1)] (round64 1 10) 3 = Inr ls
     \<and> map bin_price64 ls
         = map val64 [B64 7061503478228582 (- 46), B64 7054466603810816 (- 46),
             B64 7047429729393049 (- 46), B64 7040392854975283 (- 46),
             B64 7033355980557517 (- 46), B64 7026319106139750 (- 46),
             B64 7019282231721984 (- 46)]
     \<and> map bid_qty64 ls = [0, 0, 0, round64 1 1, 0, 0, 0]
     \<and> map ask_qty64 ls = [0, 0, 0, 0, 0, 0, 0]
     \<and> map snd [(round64 10011 100, round64 1 1)] = [B64 4503599627370496 (- 52)]
     \<and> val64 (B64 7019282231721984 (- 46)) < val64 (round64 10011 100)
     \<and> val64 (round64 10011 100) < val64 (B64 7061503478228582 (- 46))
     \<and> bin_center_of (val64 (round64 1 10)) (val64 (round64 10011 100))
         = bin_center_of (val64 (round64 1 10))
             (val64 (mid_price64 [(round64 10001 100, round64 1 1)]
                [(round64 10011 100, round64 1 1)]))
           + val64 (round64 1 10)
     \<and> bin_center64 (round64 1 10) (round64 10011 100) = B64 7047429729393050 (- 46)
     \<and> bin_center64 (round64 1 10)
           (mid_price64 [(round64 10001 100, round64 1 1)] [(round64 10011 100, round64 1 1)])
         + float_of_int 1 * round64 1 10 = B64 7047429729393049 (- 46)"
proof -
  have l: "get_binned_ladder64 [(round64 10001 100, round64 1 1)]
          [(round64 10011 100, round64 1 1)] (round64 1 10) 3
     = Inr [BinnedLevel64 (val64 (B64 7061503478228582 (- 46))) 0 0,
          BinnedLevel64 (val64 (B64 7054466603810816 (- 46))) 0 0,
          BinnedLevel64 (val64 (B64 7047429729393049 (- 46))) 0 0,
          BinnedLevel64 (val64 (B64 7040392854975283 (- 46))) (B64 4503599627370496 (- 52)) 0,
          BinnedLevel64 (val64 (B64 7033355980557517 (- 46))) 0 0,
          BinnedLevel64 (val64 (B64 7026319106139750 (- 46))) 0 0,
          BinnedLevel64 (val64 (B64 7019282231721984 (- 46))) 0 0]"
    by (simp only: f_price1 f_price2 f_one f_tenth ex_ladder)
  have q: "map snd [(round64 10011 100, round64 1 1)] = [B64 4503599627370496 (- 52)]"
    by (simp add: f_one)
  have r: "val64 (B64 7019282231721984 (- 46)) < val64 (round64 10011 100)"
    "val64 (round64 10011 100) < val64 (B64 7061503478228582 (- 46))"
    by (simp_all only: f_price2 ex_between)
  have e: "bin_center_of (val64 (round64 1 10)) (val64 (round64 10011 100))
         = bin_center_of (val64 (round64 1 10))
             (val64 (mid_price64 [(round64 10001 100, round64 1 1)]
                [(round64 10011 100, round64 1 1)]))
           + val64 (round64 1 10)"
    by (simp only: f_price1 f_price2 f_one f_tenth ex_mid ex_exact_center)
  have c: "bin_center64 (round64 1 10) (round64 10011 100) = B64 7047429729393050 (- 46)"
    by (simp only: f_price2 f_tenth f_ask_center)
  have k: "bin_center64 (round64 1 10)
           (mid_price64 [(round64 10001 100, round64 1 1)] [(round64 10011 100, round64 1 1)])
         + float_of_int 1 * round64 1 10 = B64 7047429729393049 (- 46)"
    by (simp only: f_price1 f_price2 f_one f_tenth ex_mid f_center f_keys)
  from l q r e c k show ?thesis
    by (simp add: f_one del: val64.simps)
qed

section \<open>The bounded output channel\<close>

lemma push_drop_oldest_room:
  "length q < queue_maxsize \<Longrightarrow> push_drop_oldest q x = q @ [x]"
  by (simp add: push_drop_oldest_def put_nowait_def)

lemma push_drop_oldest_full:
  "length q = queue_maxsize \<Longrightarrow> push_drop_oldest q x = tl q @ [x]"
  by (cases q) (simp_all add: push_drop_oldest_def put_nowait_def get_nowait_def queue_maxsize_def)

lemma push_drop_oldest_bounded:
  assumes "length q \<le> queue_maxsize"
  shows "length (push_drop_oldest q x) \<le> queue_maxsize \<and> last (push_drop_oldest q x) = x"
proof (cases "length q = queue_maxsize")
  case True
  then show ?thesis by (simp add: push_drop_oldest_full queue_maxsize_def)
next
  case False
  with assms have "length q < queue_maxsize" by simp
  then show ?thesis by (simp add: push_drop_oldest_room)
qed

text \<open>
  C9. A call of \<^verbatim>\<open>_maybe_push_snapshot\<close> that returns leaves at most five artifacts queued.
  When the interval has elapsed, the artifact it built (from the book and flow state of the
  call) is the newest element of the queue; if the queue was full its oldest element has been
  removed and the others keep their order, otherwise the artifact is appended. Every queue
  operation used is the non-waiting one, so the call never waits on the queue.
\<close>

theorem publish_drops_oldest:
  assumes "maybe_push_snapshot c now wall_ms = Inr c'"
    and "length (snapshot_queue c) \<le> queue_maxsize"
  shows "length (snapshot_queue c') \<le> queue_maxsize
    \<and> (\<not> (now - last_snapshot_time c) * 1000 < of_int (snapshot_interval_ms c) \<longrightarrow>
         (\<exists>snapshot.
            snap_timestamp_ms snapshot = wall_ms
            \<and> snap_best_bid snapshot = best_bid (orderbook c)
            \<and> snap_best_ask snapshot = best_ask (orderbook c)
            \<and> snap_mid_price snapshot = mid_price (orderbook c)
            \<and> last (snapshot_queue c') = snapshot
            \<and> (length (snapshot_queue c) = queue_maxsize \<longrightarrow>
                 snapshot_queue c' = tl (snapshot_queue c) @ [snapshot])
            \<and> (length (snapshot_queue c) < queue_maxsize \<longrightarrow>
                 snapshot_queue c' = snapshot_queue c @ [snapshot])))"
proof (cases "(now - last_snapshot_time c) * 1000 < of_int (snapshot_interval_ms c)")
  case True
  with assms have "c' = c" by (simp add: maybe_push_snapshot_def)
  with assms(2) True show ?thesis by simp
next
  case False
  define c2 where "c2 =
    (if now - rate_calc_time (c\<lparr>last_snapshot_time := now\<rparr>) \<ge> 1
     then (c\<lparr>last_snapshot_time := now\<rparr>)
            \<lparr>updates_per_sec :=
               of_int (client_update_count (c\<lparr>last_snapshot_time := now\<rparr>)
                       - update_count_last (c\<lparr>last_snapshot_time := now\<rparr>))
               / (now - rate_calc_time (c\<lparr>last_snapshot_time := now\<rparr>)),
             update_count_last := client_update_count (c\<lparr>last_snapshot_time := now\<rparr>),
             rate_calc_time := now\<rparr>
     else c\<lparr>last_snapshot_time := now\<rparr>)"
  have same: "orderbook c2 = orderbook c" "snapshot_queue c2 = snapshot_queue c"
    by (simp_all add: c2_def)
  from assms(1) False obtain snapshot where
    built: "build_snapshot c2 wall_ms = Inr snapshot"
    and c': "c' = c2\<lparr>snapshot_queue := push_drop_oldest (snapshot_queue c2) snapshot\<rparr>"
    by (auto simp: maybe_push_snapshot_def Let_def c2_def split: sum.splits)
  from built have fields: "snap_timestamp_ms snapshot = wall_ms"
    "snap_best_bid snapshot = best_bid (orderbook c)"
    "snap_best_ask snapshot = best_ask (orderbook c)"
    "snap_mid_price snapshot = mid_price (orderbook c)"
    by (auto simp: build_snapshot_def Let_def same split: sum.splits)
  have q: "snapshot_queue c' = push_drop_oldest (snapshot_queue c) snapshot"
    by (simp add: c' same)
  from push_drop_oldest_bounded [OF assms(2), of snapshot] q
  have "length (snapshot_queue c') \<le> queue_maxsize" "last (snapshot_queue c') = snapshot"
    by simp_all
  moreover have "snapshot_queue c' = tl (snapshot_queue c) @ [snapshot]"
    if "length (snapshot_queue c) = queue_maxsize"
    using that q by (simp add: push_drop_oldest_full)
  moreover have "snapshot_queue c' = snapshot_queue c @ [snapshot]"
    if "length (snapshot_queue c) < queue_maxsize"
    using that q by (simp add: push_drop_oldest_room)
  ultimately show ?thesis using fields by blast
qed

theorem publish_drops_oldest_witness:
  "maybe_push_snapshot
     ((BinanceClient_init ''BNBUSDT'' 1 25 60 100 0 :: rat BinanceClient)
        \<lparr>snapshot_queue :=
           [DOMSnapshot ''BNBUSDT'' 0 0 0 0 [] 1 0, DOMSnapshot ''BNBUSDT'' 0 0 0 0 [] 2 0,
            DOMSnapshot ''BNBUSDT'' 0 0 0 0 [] 3 0, DOMSnapshot ''BNBUSDT'' 0 0 0 0 [] 4 0,
            DOMSnapshot ''BNBUSDT'' 0 0 0 0 [] 5 0]\<rparr>) (1 / 2) 6
   = Inr ((BinanceClient_init ''BNBUSDT'' 1 25 60 100 0 :: rat BinanceClient)
        \<lparr>last_snapshot_time := 1 / 2,
         snapshot_queue :=
           [DOMSnapshot ''BNBUSDT'' 0 0 0 0 [] 2 0, DOMSnapshot ''BNBUSDT'' 0 0 0 0 [] 3 0,
            DOMSnapshot ''BNBUSDT'' 0 0 0 0 [] 4 0, DOMSnapshot ''BNBUSDT'' 0 0 0 0 [] 5 0,
            DOMSnapshot ''BNBUSDT'' 0 0 0 0 [] 6 0]\<rparr>)
   \<and> (\<exists>snapshot. snap_timestamp_ms snapshot = 6
        \<and> last [DOMSnapshot ''BNBUSDT'' 0 0 0 0 [] 2 0, DOMSnapshot ''BNBUSDT'' 0 0 0 0 [] 3 0,
            DOMSnapshot ''BNBUSDT'' 0 0 0 0 [] 4 0, DOMSnapshot ''BNBUSDT'' 0 0 0 0 [] 5 0,
            DOMSnapshot ''BNBUSDT'' 0 0 0 0 [] 6 (0::rat)] = (snapshot :: rat DOMSnapshot))"
proof -
  let ?q = "[DOMSnapshot ''BNBUSDT'' 0 0 0 0 [] 1 0, DOMSnapshot ''BNBUSDT'' 0 0 0 0 [] 2 0,
            DOMSnapshot ''BNBUSDT'' 0 0 0 0 [] 3 0, DOMSnapshot ''BNBUSDT'' 0 0 0 0 [] 4 0,
            DOMSnapshot ''BNBUSDT'' 0 0 0 0 [] 5 (0::rat)] :: rat DOMSnapshot list"
  let ?q' = "[DOMSnapshot ''BNBUSDT'' 0 0 0 0 [] 2 0, DOMSnapshot ''BNBUSDT'' 0 0 0 0 [] 3 0,
            DOMSnapshot ''BNBUSDT'' 0 0 0 0 [] 4 0, DOMSnapshot ''BNBUSDT'' 0 0 0 0 [] 5 0,
            DOMSnapshot ''BNBUSDT'' 0 0 0 0 [] 6 (0::rat)] :: rat DOMSnapshot list"
  let ?c = "(BinanceClient_init ''BNBUSDT'' 1 25 60 100 0 :: rat BinanceClient)
        \<lparr>snapshot_queue := ?q\<rparr>"
  let ?c' = "(BinanceClient_init ''BNBUSDT'' 1 25 60 100 0 :: rat BinanceClient)
        \<lparr>last_snapshot_time := 1 / 2, snapshot_queue := ?q'\<rparr>"
  have ob: "orderbook ?c = OrderBook_init ''BNBUSDT''"
    by (simp add: BinanceClient_init_def)
  have book: "best_bid (OrderBook_init ''BNBUSDT'') = 0" "best_ask (OrderBook_init ''BNBUSDT'') = 0"
    "mid_price (OrderBook_init ''BNBUSDT'') = 0"
    by (simp_all add: mid_price_def best_bid_def best_ask_def ensure_sorted_def OrderBook_init_def)
  have run: "maybe_push_snapshot ?c (1 / 2) 6 = Inr ?c'"
    by (simp add: maybe_push_snapshot_def build_snapshot_def get_binned_ladder_def book
        BinanceClient_init_def merge_with_book_def push_drop_oldest_def put_nowait_def
        get_nowait_def queue_maxsize_def)
  have len: "length (snapshot_queue ?c) \<le> queue_maxsize"
    by (simp add: queue_maxsize_def)
  have due: "\<not> (1 / 2 - last_snapshot_time ?c) * 1000 < of_int (snapshot_interval_ms ?c)"
    by (simp add: BinanceClient_init_def)
  from publish_drops_oldest [OF run len] due
  have "\<exists>snapshot. snap_timestamp_ms snapshot = 6 \<and> last (snapshot_queue ?c') = snapshot"
    by blast
  then have "\<exists>snapshot. snap_timestamp_ms snapshot = 6 \<and> last ?q' = snapshot"
    by simp
  with run show ?thesis by blast
qed

section \<open>The end-to-end scenario\<close>




section \<open>Rolling totals in exact arithmetic\<close>

lemma dict_get_update: "dict_get (AList.update k v d) k' dflt = (if k' = k then v else dict_get d k' dflt)"
  by (simp add: dict_get_def update_conv')

lemma dict_get_delete: "dict_get (AList.delete k d) k' dflt = (if k' = k then dflt else dict_get d k' dflt)"
  by (simp add: dict_get_def delete_conv')

lemma subtract_volume_get:
  fixes q :: "'q::linordered_ab_group_add"
  assumes "dict_get vol b 0 = q + r" and "0 \<le> r"
  shows "dict_get (subtract_volume vol b q) b' 0 = (if b' = b then r else dict_get vol b' 0)"
  using assms
  by (auto simp: subtract_volume_def Let_def dict_get_update dict_get_delete max_def)

lemma subtract_volume_keys:
  fixes q :: "'q::linordered_ab_group_add"
  assumes "dict_get vol b 0 = q + r" and "0 \<le> r"
  shows "fst ` set (subtract_volume vol b q) \<subseteq> (fst ` set vol - {b}) \<union> (if r = 0 then {} else {b})"
proof -
  have v: "max 0 (dict_get vol b 0 - q) = r" using assms by (simp add: max_def)
  show ?thesis
  proof (cases "r = 0")
    case True
    then have "subtract_volume vol b q = AList.delete b vol"
      using v by (simp add: subtract_volume_def Let_def dict_get_update delete_update_same)
    then show ?thesis
      using True delete_notin_dom [of b vol] dom_delete_subset [of b vol] by auto
  next
    case False
    then have "subtract_volume vol b q = AList.update b r vol"
      using v by (simp add: subtract_volume_def Let_def dict_get_update)
    then show ?thesis using False by (auto simp: dom_update)
  qed
qed

lemma side_total_Cons:
  "side_total ((t, b, q, sd) # hist) side bin_p
     = (if sd = side \<and> b = bin_p then q + side_total hist side bin_p
        else side_total hist side bin_p)"
  by (simp add: side_total_def)

lemma side_total_nonneg:
  fixes hist :: "(int \<times> rat \<times> 'q::linordered_ab_group_add \<times> bool) list"
  assumes "\<forall>x\<in>set hist. 0 \<le> fst (snd (snd x))"
  shows "0 \<le> side_total hist side bin_p"
  unfolding side_total_def using assms by (intro sum_list_nonneg) auto

lemma side_total_nonzero:
  fixes hist :: "(int \<times> rat \<times> 'q::linordered_ab_group_add \<times> bool) list"
  assumes "side_total hist side bin_p \<noteq> 0"
  shows "bin_p \<in> (\<lambda>x. fst (snd x)) ` {x \<in> set hist. snd (snd (snd x)) = side}"
proof (rule ccontr)
  assume "bin_p \<notin> (\<lambda>x. fst (snd x)) ` {x \<in> set hist. snd (snd (snd x)) = side}"
  then have "filter (\<lambda>x. snd (snd (snd x)) = side \<and> fst (snd x) = bin_p) hist = []"
    by (auto simp: filter_empty_conv)
  then have "side_total hist side bin_p = 0" by (simp add: side_total_def)
  with assms show False by simp
qed

lemma evict_bid_ok:
  fixes q :: "'q::linordered_ab_group_add"
  assumes ok: "totals_ok ((t, b, q, True) # hist) bv av"
  shows "totals_ok hist (subtract_volume bv b q) av"
proof -
  from ok have nn: "\<forall>x\<in>set hist. 0 \<le> fst (snd (snd x))"
    and bvq: "\<And>bin_p. dict_get bv bin_p 0 = side_total ((t, b, q, True) # hist) True bin_p"
    and avq: "\<And>bin_p. dict_get av bin_p 0 = side_total ((t, b, q, True) # hist) False bin_p"
    and bk: "fst ` set bv \<subseteq> (\<lambda>x. fst (snd x)) ` {x \<in> set ((t, b, q, True) # hist). snd (snd (snd x))}"
    and ak: "fst ` set av \<subseteq> (\<lambda>x. fst (snd x)) ` {x \<in> set ((t, b, q, True) # hist). \<not> snd (snd (snd x))}"
    by (simp_all add: totals_ok_def)
  let ?r = "side_total hist True b"
  have r0: "0 \<le> ?r" by (rule side_total_nonneg [OF nn])
  have at_b: "dict_get bv b 0 = q + ?r" by (simp add: bvq side_total_Cons)
  have g: "dict_get (subtract_volume bv b q) bin_p 0 = side_total hist True bin_p" for bin_p
    using subtract_volume_get [OF at_b r0, of bin_p] by (simp add: bvq side_total_Cons)
  have a: "dict_get av bin_p 0 = side_total hist False bin_p" for bin_p
    by (simp add: avq side_total_Cons)
  have k1: "fst ` set bv - {b} \<subseteq> (\<lambda>x. fst (snd x)) ` {x \<in> set hist. snd (snd (snd x))}"
    using bk by auto
  have k2: "(if ?r = 0 then {} else {b}) \<subseteq> (\<lambda>x. fst (snd x)) ` {x \<in> set hist. snd (snd (snd x))}"
    using side_total_nonzero [of hist True b] by auto
  have k: "fst ` set (subtract_volume bv b q)
      \<subseteq> (\<lambda>x. fst (snd x)) ` {x \<in> set hist. snd (snd (snd x))}"
    using subtract_volume_keys [OF at_b r0] k1 k2 by blast
  have ka: "fst ` set av \<subseteq> (\<lambda>x. fst (snd x)) ` {x \<in> set hist. \<not> snd (snd (snd x))}"
    using ak by auto
  show ?thesis
    unfolding totals_ok_def using nn g a k ka by blast
qed

lemma evict_ask_ok:
  fixes q :: "'q::linordered_ab_group_add"
  assumes ok: "totals_ok ((t, b, q, False) # hist) bv av"
  shows "totals_ok hist bv (subtract_volume av b q)"
proof -
  from ok have nn: "\<forall>x\<in>set hist. 0 \<le> fst (snd (snd x))"
    and bvq: "\<And>bin_p. dict_get bv bin_p 0 = side_total ((t, b, q, False) # hist) True bin_p"
    and avq: "\<And>bin_p. dict_get av bin_p 0 = side_total ((t, b, q, False) # hist) False bin_p"
    and bk: "fst ` set bv \<subseteq> (\<lambda>x. fst (snd x)) ` {x \<in> set ((t, b, q, False) # hist). snd (snd (snd x))}"
    and ak: "fst ` set av \<subseteq> (\<lambda>x. fst (snd x)) ` {x \<in> set ((t, b, q, False) # hist). \<not> snd (snd (snd x))}"
    by (simp_all add: totals_ok_def)
  let ?r = "side_total hist False b"
  have r0: "0 \<le> ?r" by (rule side_total_nonneg [OF nn])
  have at_b: "dict_get av b 0 = q + ?r" by (simp add: avq side_total_Cons)
  have g: "dict_get (subtract_volume av b q) bin_p 0 = side_total hist False bin_p" for bin_p
    using subtract_volume_get [OF at_b r0, of bin_p] by (simp add: avq side_total_Cons)
  have a: "dict_get bv bin_p 0 = side_total hist True bin_p" for bin_p
    by (simp add: bvq side_total_Cons)
  have k1: "fst ` set av - {b} \<subseteq> (\<lambda>x. fst (snd x)) ` {x \<in> set hist. \<not> snd (snd (snd x))}"
    using ak by auto
  have k2: "(if ?r = 0 then {} else {b})
      \<subseteq> (\<lambda>x. fst (snd x)) ` {x \<in> set hist. \<not> snd (snd (snd x))}"
    using side_total_nonzero [of hist False b] by auto
  have k: "fst ` set (subtract_volume av b q)
      \<subseteq> (\<lambda>x. fst (snd x)) ` {x \<in> set hist. \<not> snd (snd (snd x))}"
    using subtract_volume_keys [OF at_b r0] k1 k2 by blast
  have kb: "fst ` set bv \<subseteq> (\<lambda>x. fst (snd x)) ` {x \<in> set hist. snd (snd (snd x))}"
    using bk by auto
  show ?thesis
    unfolding totals_ok_def using nn g a k kb by blast
qed

lemma evict_expired_ok:
  fixes bv :: "(rat, 'q::linordered_ab_group_add) dict"
  shows "totals_ok hist bv av \<Longrightarrow> evict_expired cutoff hist bv av = (hist', bv', av')
     \<Longrightarrow> totals_ok hist' bv' av'"
proof (induction cutoff hist bv av rule: evict_expired.induct)
  case (1 cutoff_ms bv av)
  then show ?case by simp
next
  case (2 cutoff_ms ts_ms bin_p q is_bid rest bv av)
  show ?case
  proof (cases "ts_ms < cutoff_ms")
    case False
    with "2.prems" show ?thesis by simp
  next
    case True
    show ?thesis
    proof (cases is_bid)
      case True
      with \<open>ts_ms < cutoff_ms\<close> "2.prems" "2.IH"(1) evict_bid_ok [of ts_ms bin_p q rest bv av]
      show ?thesis by simp
    next
      case False
      with \<open>ts_ms < cutoff_ms\<close> "2.prems" "2.IH"(2) evict_ask_ok [of ts_ms bin_p q rest bv av]
      show ?thesis by simp
    qed
  qed
qed

lemma side_total_snoc:
  "side_total (hist @ [(t, b, q, sd)]) side bin_p
     = (if sd = side \<and> b = bin_p then side_total hist side bin_p + q
        else side_total hist side bin_p)"
  by (simp add: side_total_def)

lemma totals_ok_empty: "totals_ok [] [] []"
  by (simp add: totals_ok_def side_total_def dict_get_def)

lemma add_bid_trade_ok:
  fixes q :: "'q::linordered_ab_group_add"
  assumes "totals_ok hist bv av" and "0 \<le> q"
  shows "totals_ok (hist @ [(t, b, q, True)]) (AList.update b (dict_get bv b 0 + q) bv) av"
  using assms unfolding totals_ok_def
  by (auto simp: side_total_snoc dict_get_update dom_update image_iff)

lemma add_ask_trade_ok:
  fixes q :: "'q::linordered_ab_group_add"
  assumes "totals_ok hist bv av" and "0 \<le> q"
  shows "totals_ok (hist @ [(t, b, q, False)]) bv (AList.update b (dict_get av b 0 + q) av)"
  using assms unfolding totals_ok_def
  by (auto simp: side_total_snoc dict_get_update dom_update image_iff)

lemma cleanup_expired_ok:
  fixes e :: "'q::linordered_ab_group_add FlowEngine"
  assumes "totals_ok (trades e) (bid_volume e) (ask_volume e)"
  shows "totals_ok (trades (cleanup_expired e now_ms)) (bid_volume (cleanup_expired e now_ms))
           (ask_volume (cleanup_expired e now_ms))"
proof -
  obtain h bv av where
    ev: "evict_expired (now_ms - py_int (window_sec e * 1000)) (trades e) (bid_volume e)
           (ask_volume e) = (h, bv, av)"
    by (metis prod_cases3)
  from evict_expired_ok [OF assms ev] ev show ?thesis
    by (simp add: cleanup_expired_def Let_def)
qed

text \<open>With exact arithmetic and quantities that are not negative, every call of
  \<open>process_trade\<close> keeps the totals equal to the sums over the history.\<close>

lemma process_trade_ok:
  fixes e :: "'q::linordered_ab_group_add FlowEngine"
  assumes ok: "totals_ok (trades e) (bid_volume e) (ask_volume e)"
    and q: "0 \<le> qty trade"
    and run: "process_trade e trade now = Inr e'"
  shows "totals_ok (trades e') (bid_volume e') (ask_volume e')"
proof -
  let ?b = "price_to_bin e (price trade)"
  let ?e2 = "(if \<not> is_buyer_maker trade
              then e\<lparr>bid_volume := AList.update ?b (dict_get (bid_volume e) ?b 0 + qty trade)
                                      (bid_volume e)\<rparr>
              else e\<lparr>ask_volume := AList.update ?b (dict_get (ask_volume e) ?b 0 + qty trade)
                                      (ask_volume e)\<rparr>)
            \<lparr>trades := trades e @ [(timestamp_ms trade, ?b, qty trade, \<not> is_buyer_maker trade)]\<rparr>"
  have ok2: "totals_ok (trades ?e2) (bid_volume ?e2) (ask_volume ?e2)"
    using add_bid_trade_ok [OF ok q, of "timestamp_ms trade" ?b]
      add_ask_trade_ok [OF ok q, of "timestamp_ms trade" ?b]
    by (cases "is_buyer_maker trade") simp_all
  from run have "e' = ?e2 \<or> e' = (cleanup_expired ?e2 (timestamp_ms trade))\<lparr>last_cleanup_time := now\<rparr>"
    by (auto simp: process_trade_def Let_def split: if_splits)
  then show ?thesis
    using ok2 cleanup_expired_ok [OF ok2, of "timestamp_ms trade"] by auto
qed

lemma evict_all_expired:
  "\<forall>x\<in>set hist. fst x < cutoff \<Longrightarrow> \<exists>bv' av'. evict_expired cutoff hist bv av = ([], bv', av')"
  by (induction cutoff hist bv av rule: evict_expired.induct) auto

text \<open>Once every entry of the history is older than the cut-off, a clean-up leaves the
  history and both volume maps empty: no key stays behind with the value zero.\<close>

lemma cleanup_all_expired:
  fixes e :: "'q::linordered_ab_group_add FlowEngine"
  assumes ok: "totals_ok (trades e) (bid_volume e) (ask_volume e)"
    and old: "\<forall>x\<in>set (trades e). fst x < now_ms - py_int (window_sec e * 1000)"
  shows "trades (cleanup_expired e now_ms) = [] \<and> bid_volume (cleanup_expired e now_ms) = []
    \<and> ask_volume (cleanup_expired e now_ms) = []"
proof -
  from evict_all_expired [OF old] obtain bv' av' where
    ev: "evict_expired (now_ms - py_int (window_sec e * 1000)) (trades e) (bid_volume e)
           (ask_volume e) = ([], bv', av')"
    by blast
  from evict_expired_ok [OF ok ev] have "bv' = []" "av' = []"
    by (simp_all add: totals_ok_def)
  with ev show ?thesis by (simp add: cleanup_expired_def Let_def)
qed

section \<open>Rolling totals in double arithmetic\<close>

lemma b64_tenth: "round64 1 10 = B64 7205759403792794 (- 56)"
  by code_simp

lemma b64_fifth: "round64 2 10 = B64 7205759403792794 (- 55)"
  by code_simp

lemma b64_one: "round64 1 1 = B64 4503599627370496 (- 52)"
  by code_simp

lemma b64_zero_plus: "0 + B64 7205759403792794 (- 56) = B64 7205759403792794 (- 56)"
  "0 + B64 4503599627370496 (- 52) = B64 4503599627370496 (- 52)"
  by code_simp+

lemma b64_sum: "B64 7205759403792794 (- 56) + B64 7205759403792794 (- 55)
    = B64 5404319552844596 (- 54)"
  by code_simp

lemma b64_diff1: "B64 5404319552844596 (- 54) - B64 7205759403792794 (- 56)
    = B64 7205759403792795 (- 55)"
  by code_simp

lemma b64_diff2: "B64 7205759403792795 (- 55) - B64 7205759403792794 (- 55)
    = B64 4503599627370496 (- 107)"
  by code_simp

lemma b64_nonneg: "(0::binary64) \<le> B64 m e \<longleftrightarrow> 0 \<le> m"
  by (simp add: zero_binary64_def scaled_def Let_def zero_le_mult_iff)

lemma b64_eq_zero: "B64 m e = 0 \<longleftrightarrow> m = 0 \<and> e = - 1074"
  by (simp add: zero_binary64_def)

lemma b64_max_zero: "0 \<le> m \<Longrightarrow> max 0 (B64 m e) = B64 m e"
  by (simp add: max_def b64_nonneg)

lemma float_step1:
  "process_trade (FlowEngine_init 1 60 :: binary64 FlowEngine)
     (Trade (199 / 2) (round64 1 10) False 0) 10
   = Inr \<lparr>window_sec = 60, bin_size = 1,
          trades = [(0, 199 / 2, B64 7205759403792794 (- 56), True)],
          bid_volume = [(199 / 2, B64 7205759403792794 (- 56))], ask_volume = [],
          last_cleanup_time = 10, cleanup_interval = 1\<rparr>"
  by (simp add: process_trade_def FlowEngine_init_def price_to_bin_def floordiv_def dict_get_def
      cleanup_expired_def py_int_def Let_def b64_tenth b64_zero_plus
      del: plus_binary64.simps)

lemma float_step2:
  "process_trade
     \<lparr>window_sec = 60, bin_size = 1,
      trades = [(0, 199 / 2, B64 7205759403792794 (- 56), True)],
      bid_volume = [(199 / 2, B64 7205759403792794 (- 56))], ask_volume = [],
      last_cleanup_time = 10, cleanup_interval = 1\<rparr>
     (Trade (199 / 2) (round64 2 10) False 1000) (21 / 2)
   = Inr \<lparr>window_sec = 60, bin_size = 1,
          trades = [(0, 199 / 2, B64 7205759403792794 (- 56), True),
                    (1000, 199 / 2, B64 7205759403792794 (- 55), True)],
          bid_volume = [(199 / 2, B64 5404319552844596 (- 54))], ask_volume = [],
          last_cleanup_time = 10, cleanup_interval = 1\<rparr>"
  by (simp add: process_trade_def price_to_bin_def floordiv_def dict_get_def
      Let_def b64_fifth b64_sum del: plus_binary64.simps)

lemma float_step3:
  "process_trade
     \<lparr>window_sec = 60, bin_size = 1,
      trades = [(0, 199 / 2, B64 7205759403792794 (- 56), True),
                (1000, 199 / 2, B64 7205759403792794 (- 55), True)],
      bid_volume = [(199 / 2, B64 5404319552844596 (- 54))], ask_volume = [],
      last_cleanup_time = 10, cleanup_interval = 1\<rparr>
     (Trade (203 / 2) (round64 1 1) False 61001) 80
   = Inr \<lparr>window_sec = 60, bin_size = 1,
          trades = [(61001, 203 / 2, B64 4503599627370496 (- 52), True)],
          bid_volume = [(199 / 2, B64 4503599627370496 (- 107)),
                        (203 / 2, B64 4503599627370496 (- 52))],
          ask_volume = [],
          last_cleanup_time = 80, cleanup_interval = 1\<rparr>"
  by (simp add: process_trade_def price_to_bin_def floordiv_def dict_get_def
      cleanup_expired_def py_int_def subtract_volume_def
      Let_def b64_one b64_zero_plus b64_diff1 b64_diff2 b64_max_zero b64_eq_zero
      del: plus_binary64.simps minus_binary64.simps less_eq_binary64.simps)

text \<open>The same three trades with exact quantities: the bin of the first two is evicted.\<close>

lemma exact_run_evicts:
  "process_trade (FlowEngine_init 1 60 :: rat FlowEngine) (Trade (199 / 2) (1 / 10) False 0) 10
     = Inr \<lparr>window_sec = 60, bin_size = 1, trades = [(0, 199 / 2, 1 / 10, True)],
            bid_volume = [(199 / 2, 1 / 10)], ask_volume = [],
            last_cleanup_time = 10, cleanup_interval = 1\<rparr>
   \<and> process_trade
        (\<lparr>window_sec = 60, bin_size = 1, trades = [(0, 199 / 2, 1 / 10, True)],
          bid_volume = [(199 / 2, 1 / 10)], ask_volume = [],
          last_cleanup_time = 10, cleanup_interval = 1\<rparr> :: rat FlowEngine)
        (Trade (199 / 2) (2 / 10) False 1000) (21 / 2)
     = Inr \<lparr>window_sec = 60, bin_size = 1,
            trades = [(0, 199 / 2, 1 / 10, True), (1000, 199 / 2, 1 / 5, True)],
            bid_volume = [(199 / 2, 3 / 10)], ask_volume = [],
            last_cleanup_time = 10, cleanup_interval = 1\<rparr>
   \<and> process_trade
        (\<lparr>window_sec = 60, bin_size = 1,
          trades = [(0, 199 / 2, 1 / 10, True), (1000, 199 / 2, 1 / 5, True)],
          bid_volume = [(199 / 2, 3 / 10)], ask_volume = [],
          last_cleanup_time = 10, cleanup_interval = 1\<rparr> :: rat FlowEngine)
        (Trade (203 / 2) 1 False 61001) 80
     = Inr \<lparr>window_sec = 60, bin_size = 1, trades = [(61001, 203 / 2, 1, True)],
            bid_volume = [(203 / 2, 1)], ask_volume = [],
            last_cleanup_time = 80, cleanup_interval = 1\<rparr>"
  by (simp add: process_trade_def FlowEngine_init_def price_to_bin_def floordiv_def
      dict_get_def cleanup_expired_def py_int_def subtract_volume_def Let_def)

text \<open>The window example of the specification: one bid-side trade of quantity \<open>5\<close> at
  \<open>t = 0\<close> and a window of \<open>60\<close> seconds. A clean-up at \<open>59.9 s\<close> keeps the total \<open>5\<close>, one at
  \<open>60.1 s\<close> removes the key; \<open>5 - 5\<close> is exact in double arithmetic as well.\<close>

lemma single_trade_window:
  "cleanup_expired
     \<lparr>window_sec = 60, bin_size = 1, trades = [(0, 199 / 2, 5, True)],
      bid_volume = [(199 / 2, 5 :: rat)], ask_volume = [],
      last_cleanup_time = 10, cleanup_interval = 1\<rparr> 59900
     = \<lparr>window_sec = 60, bin_size = 1, trades = [(0, 199 / 2, 5, True)],
        bid_volume = [(199 / 2, 5)], ask_volume = [],
        last_cleanup_time = 10, cleanup_interval = 1\<rparr>
   \<and> cleanup_expired
     \<lparr>window_sec = 60, bin_size = 1, trades = [(0, 199 / 2, 5, True)],
      bid_volume = [(199 / 2, 5 :: rat)], ask_volume = [],
      last_cleanup_time = 10, cleanup_interval = 1\<rparr> 60100
     = \<lparr>window_sec = 60, bin_size = 1, trades = [],
        bid_volume = [], ask_volume = [],
        last_cleanup_time = 10, cleanup_interval = 1\<rparr>
   \<and> round64 5 1 - round64 5 1 = 0"
proof -
  have "round64 5 1 - round64 5 1 = 0" by code_simp
  then show ?thesis
    by (simp add: cleanup_expired_def py_int_def subtract_volume_def dict_get_def Let_def)
qed

text \<open>
  C3. In exact arithmetic the totals are the sums over the history and an emptied history
  leaves empty maps (\<open>process_trade_ok\<close>, \<open>cleanup_all_expired\<close>). In the double arithmetic of
  the program this fails: two bid-side trades of \<open>0.1\<close> and \<open>0.2\<close> in the bin \<open>99.5\<close>, then a
  trade \<open>61\<close> seconds later in another bin with the clean-up due. Both early trades are
  evicted from the history, yet the key \<open>99.5\<close> stays in the bid volume with the total
  \<open>2 ^ 52 * 2 ^ - 107\<close>, which is \<open>2 ^ - 55\<close> and not zero.
\<close>

theorem float_residue_not_evicted:
  "process_trade (FlowEngine_init 1 60 :: binary64 FlowEngine)
     (Trade (199 / 2) (round64 1 10) False 0) 10
     = Inr \<lparr>window_sec = 60, bin_size = 1,
      trades = [(0, 199 / 2, B64 7205759403792794 (- 56), True)],
      bid_volume = [(199 / 2, B64 7205759403792794 (- 56))], ask_volume = [],
      last_cleanup_time = 10, cleanup_interval = 1\<rparr>
   \<and> process_trade \<lparr>window_sec = 60, bin_size = 1,
      trades = [(0, 199 / 2, B64 7205759403792794 (- 56), True)],
      bid_volume = [(199 / 2, B64 7205759403792794 (- 56))], ask_volume = [],
      last_cleanup_time = 10, cleanup_interval = 1\<rparr> (Trade (199 / 2) (round64 2 10) False 1000) (21 / 2)
     = Inr \<lparr>window_sec = 60, bin_size = 1,
      trades = [(0, 199 / 2, B64 7205759403792794 (- 56), True),
                (1000, 199 / 2, B64 7205759403792794 (- 55), True)],
      bid_volume = [(199 / 2, B64 5404319552844596 (- 54))], ask_volume = [],
      last_cleanup_time = 10, cleanup_interval = 1\<rparr>
   \<and> process_trade \<lparr>window_sec = 60, bin_size = 1,
      trades = [(0, 199 / 2, B64 7205759403792794 (- 56), True),
                (1000, 199 / 2, B64 7205759403792794 (- 55), True)],
      bid_volume = [(199 / 2, B64 5404319552844596 (- 54))], ask_volume = [],
      last_cleanup_time = 10, cleanup_interval = 1\<rparr> (Trade (203 / 2) (round64 1 1) False 61001) 80
     = Inr \<lparr>window_sec = 60, bin_size = 1,
      trades = [(61001, 203 / 2, B64 4503599627370496 (- 52), True)],
      bid_volume = [(199 / 2, B64 4503599627370496 (- 107)),
                    (203 / 2, B64 4503599627370496 (- 52))],
      ask_volume = [],
      last_cleanup_time = 80, cleanup_interval = 1\<rparr>
   \<and> get_flow_at_bin \<lparr>window_sec = 60, bin_size = 1,
      trades = [(61001, 203 / 2, B64 4503599627370496 (- 52), True)],
      bid_volume = [(199 / 2, B64 4503599627370496 (- 107)),
                    (203 / 2, B64 4503599627370496 (- 52))],
      ask_volume = [],
      last_cleanup_time = 80, cleanup_interval = 1\<rparr> (199 / 2)
     = (B64 4503599627370496 (- 107), 0, B64 4503599627370496 (- 107))
   \<and> B64 4503599627370496 (- 107) \<noteq> 0"
proof -
  have "B64 4503599627370496 (- 107) - 0 = B64 4503599627370496 (- 107)"
    by code_simp
  then have "get_flow_at_bin \<lparr>window_sec = 60, bin_size = 1,
      trades = [(61001, 203 / 2, B64 4503599627370496 (- 52), True)],
      bid_volume = [(199 / 2, B64 4503599627370496 (- 107)),
                    (203 / 2, B64 4503599627370496 (- 52))],
      ask_volume = [],
      last_cleanup_time = 80, cleanup_interval = 1\<rparr> (199 / 2)
     = (B64 4503599627370496 (- 107), 0, B64 4503599627370496 (- 107))"
    by (simp add: get_flow_at_bin_def dict_get_def Let_def del: minus_binary64.simps)
  moreover have "B64 4503599627370496 (- 107) \<noteq> 0"
    by (simp add: b64_eq_zero)
  ultimately show ?thesis
    using float_step1 float_step2 float_step3 by simp
qed

end
